theory Spec2Isabelle
  imports Complex_Main "HOL-Library.Word" "HOL-Library.Log_Nat"
begin

section \<open>Observable properties\<close>

text \<open>
  \<^verbatim>\<open>std::function<void(T, T)>\<close>: an observer receives the old and the new value and
  returns nothing; what it does, it does to the memory it captured. The lambda that
  \<^verbatim>\<open>main\<close> registers captures the view, builds an \<^verbatim>\<open>Animation\<close> on the very property it
  observes and lets \<^verbatim>\<open>tick\<close> write \<^verbatim>\<open>property->value\<close>. An observer is therefore a
  transformer of the pair (backing value of the observed property, rest of the memory
  \<open>'h\<close>). Observers that change the observer vector while it is being iterated, or
  that assign to the property they observe and so enter \<^verbatim>\<open>operator=\<close> again, are not
  modelled.
\<close>

type_synonym ('v, 'h) observer = "'v \<Rightarrow> 'v \<Rightarrow> 'v \<times> 'h \<Rightarrow> 'v \<times> 'h"

record ('v, 'h) ObservableProperty =
  "value" :: 'v
  observers :: "('v, 'h) observer list"

text \<open>
  One invocation made by the loop of \<^verbatim>\<open>operator=\<close>: the position of the observer in the
  vector and the two arguments it was called with.
\<close>

datatype 'v call = Call (callee: nat) (old_value: 'v) (new_value: 'v)

text \<open>
  \<^verbatim>\<open>for (auto observer : this->observers) observer(this->value, new_value);\<close>
  The first argument is read from the field at every iteration. The function returns
  the invocations in the order they were made, and the memory the observers left.
\<close>

fun notify :: "('v, 'h) observer list \<Rightarrow> nat \<Rightarrow> 'v \<Rightarrow> 'v \<times> 'h \<Rightarrow> 'v call list \<times> ('v \<times> 'h)" where
  "notify [] i new_v s = ([], s)"
| "notify (ob # obs) i new_v s =
     (let r = notify obs (Suc i) new_v (ob (fst s) new_v s)
      in (Call i (fst s) new_v # fst r, snd r))"

text \<open>\<^verbatim>\<open>operator=\<close>: the loop, then \<^verbatim>\<open>this->value = new_value\<close>.\<close>

definition assign ::
  "'v \<Rightarrow> ('v, 'h) ObservableProperty \<times> 'h \<Rightarrow> 'v call list \<times> (('v, 'h) ObservableProperty \<times> 'h)" where
  "assign new_v ph =
     (let p = fst ph;
          r = notify (observers p) 0 new_v (value p, snd ph)
      in (fst r, (p\<lparr>value := new_v\<rparr>, snd (snd r))))"

text \<open>\<^verbatim>\<open>add_observer\<close>: \<^verbatim>\<open>push_back\<close> on the vector.\<close>

definition add_observer ::
  "('v, 'h) observer \<Rightarrow> ('v, 'h) ObservableProperty \<Rightarrow> ('v, 'h) ObservableProperty" where
  "add_observer ob p = p\<lparr>observers := observers p @ [ob]\<rparr>"

text \<open>An observer that leaves the backing value of the property it observes alone.\<close>

definition keeps_value :: "('v, 'h) observer \<Rightarrow> bool" where
  "keeps_value ob \<longleftrightarrow> (\<forall>old_v new_v s. fst (ob old_v new_v s) = fst s)"

text \<open>
  A property with two observers: the first writes the new value into the backing field,
  as the animation started by the observer of \<^verbatim>\<open>main\<close> does once it has run; the second
  only looks.
\<close>

definition animating_observer :: "(int, unit) observer" where
  "animating_observer old_v new_v s = (new_v, snd s)"

definition idle_observer :: "(int, unit) observer" where
  "idle_observer old_v new_v s = s"

definition animated_property :: "(int, unit) ObservableProperty" where
  "animated_property = \<lparr>value = 0, observers = [animating_observer, idle_observer]\<rparr>"

definition idle_property :: "(int, unit) ObservableProperty" where
  "idle_property = \<lparr>value = 0, observers = [idle_observer, idle_observer]\<rparr>"


section \<open>Floating-point numbers\<close>

text \<open>
  The program computes in \<^verbatim>\<open>float\<close> and \<^verbatim>\<open>double\<close>: IEEE 754 binary32 and binary64,
  every operation rounded to nearest, ties to even. A floating-point datum is a real
  number (the exact value of the datum), an infinity or a NaN. The two zeros are one
  value here: the program never divides by a zero it computed and compares zeros only
  with \<^verbatim>\<open><\<close>, \<^verbatim>\<open>>\<close> and \<^verbatim>\<open>>=\<close>, which do not tell them apart. An operation on two
  \<^verbatim>\<open>float\<close>s is rounded to \<^verbatim>\<open>float\<close>, one with a \<^verbatim>\<open>double\<close> operand to \<^verbatim>\<open>double\<close>, as on
  every target that evaluates each type in its own precision. A floating-point division
  by zero traps nowhere: it gives an infinity, or a NaN for 0 / 0.
\<close>

datatype fp = Finite real | PInf | NInf | NaN

record format =
  precision :: nat
  emin :: int
  emax :: int

definition binary32 :: format where
  "binary32 = \<lparr>precision = 24, emin = - 126, emax = 127\<rparr>"

definition binary64 :: format where
  "binary64 = \<lparr>precision = 53, emin = - 1022, emax = 1023\<rparr>"

text \<open>The exponent of a positive number: \<open>2 powi ilog2 x \<le> x < 2 powi (ilog2 x + 1)\<close>.\<close>

definition ilog2 :: "real \<Rightarrow> int" where
  "ilog2 x = (if 1 \<le> x then bitlen \<lfloor>x\<rfloor> - 1 else - bitlen (\<lceil>1 / x\<rceil> - 1))"

text \<open>The nearest integer, the even one of the two when they are equally near.\<close>

definition round_even :: "real \<Rightarrow> int" where
  "round_even x =
     (let n = \<lfloor>x\<rfloor>; r = x - of_int n
      in if r < 1 / 2 then n else if 1 / 2 < r then n + 1 else if even n then n else n + 1)"

text \<open>
  The distance between neighbouring numbers of the format around a magnitude \<open>m\<close>:
  below \<open>2 powi emin\<close> the numbers are subnormal and equally spaced.
\<close>

definition ulp :: "format \<Rightarrow> real \<Rightarrow> real" where
  "ulp f m = 2 powi (max (ilog2 m) (emin f) - int (precision f) + 1)"

text \<open>A magnitude rounded to the format, the exponent not yet bounded from above.\<close>

definition round_mag :: "format \<Rightarrow> real \<Rightarrow> real" where
  "round_mag f m = of_int (round_even (m / ulp f m)) * ulp f m"

text \<open>
  Rounding a number to the format: the magnitude is rounded and the sign kept; a
  result beyond the largest finite number is the infinity of that sign.
\<close>

definition round_to :: "format \<Rightarrow> real \<Rightarrow> fp" where
  "round_to f x =
     (let r = round_mag f \<bar>x\<bar>
      in if 2 powi (emax f + 1) \<le> r then (if x < 0 then NInf else PInf)
         else Finite (if x < 0 then - r else r))"

fun fp_neg :: "fp \<Rightarrow> fp" where
  "fp_neg (Finite x) = Finite (- x)"
| "fp_neg PInf = NInf"
| "fp_neg NInf = PInf"
| "fp_neg NaN = NaN"

fun fp_add :: "format \<Rightarrow> fp \<Rightarrow> fp \<Rightarrow> fp" where
  "fp_add f NaN b = NaN"
| "fp_add f a NaN = NaN"
| "fp_add f (Finite x) (Finite y) = round_to f (x + y)"
| "fp_add f PInf NInf = NaN"
| "fp_add f NInf PInf = NaN"
| "fp_add f (Finite x) b = b"
| "fp_add f a b = a"

definition fp_sub :: "format \<Rightarrow> fp \<Rightarrow> fp \<Rightarrow> fp" where
  "fp_sub f a b = fp_add f a (fp_neg b)"

fun fp_mul :: "format \<Rightarrow> fp \<Rightarrow> fp \<Rightarrow> fp" where
  "fp_mul f NaN b = NaN"
| "fp_mul f a NaN = NaN"
| "fp_mul f (Finite x) (Finite y) = round_to f (x * y)"
| "fp_mul f (Finite x) b = (if x = 0 then NaN else if x < 0 then fp_neg b else b)"
| "fp_mul f a (Finite y) = (if y = 0 then NaN else if y < 0 then fp_neg a else a)"
| "fp_mul f PInf b = b"
| "fp_mul f NInf b = fp_neg b"

fun fp_div :: "format \<Rightarrow> fp \<Rightarrow> fp \<Rightarrow> fp" where
  "fp_div f NaN b = NaN"
| "fp_div f a NaN = NaN"
| "fp_div f (Finite x) (Finite y) =
     (if y = 0 then (if x = 0 then NaN else if x < 0 then NInf else PInf)
      else round_to f (x / y))"
| "fp_div f (Finite x) b = Finite 0"
| "fp_div f a (Finite y) = (if y < 0 then fp_neg a else a)"
| "fp_div f a b = NaN"

text \<open>The comparisons \<^verbatim>\<open><\<close> and \<^verbatim>\<open><=\<close>; both are false when an operand is a NaN.\<close>

fun fp_less :: "fp \<Rightarrow> fp \<Rightarrow> bool" where
  "fp_less NaN b = False"
| "fp_less a NaN = False"
| "fp_less (Finite x) (Finite y) = (x < y)"
| "fp_less a NInf = False"
| "fp_less NInf b = True"
| "fp_less PInf b = False"
| "fp_less (Finite x) PInf = True"

fun fp_le :: "fp \<Rightarrow> fp \<Rightarrow> bool" where
  "fp_le NaN b = False"
| "fp_le a NaN = False"
| "fp_le (Finite x) (Finite y) = (x \<le> y)"
| "fp_le NInf b = True"
| "fp_le a PInf = True"
| "fp_le a b = False"

text \<open>
  A datum that is a number, and a number that a \<^verbatim>\<open>float\<close> can hold: one that rounding to
  binary32 leaves as it is.
\<close>

fun is_finite :: "fp \<Rightarrow> bool" where
  "is_finite (Finite x) = True"
| "is_finite a = False"

fun finite_float :: "fp \<Rightarrow> bool" where
  "finite_float (Finite x) = (round_to binary32 x = Finite x)"
| "finite_float a = False"

text \<open>A \<^verbatim>\<open>float\<close> is a \<^verbatim>\<open>double\<close>: the conversion changes nothing.\<close>

definition float_to_double :: "fp \<Rightarrow> fp" where
  "float_to_double x = x"

fun double_to_float :: "fp \<Rightarrow> fp" where
  "double_to_float (Finite x) = round_to binary32 x"
| "double_to_float a = a"

text \<open>
  The program's integers: \<^verbatim>\<open>int64_t\<close> and \<^verbatim>\<open>int\<close>, two's complement, read with \<open>sint\<close>.
  The program checks no range before it subtracts; a difference that does not fit wraps
  around, which is what the subtraction instruction computes (the language itself leaves
  the overflow undefined).
\<close>

type_synonym int64 = "64 word"
type_synonym int32 = "32 word"

definition int64_to_double :: "int64 \<Rightarrow> fp" where
  "int64_to_double w = round_to binary64 (of_int (sint w))"

definition int32_to_double :: "int32 \<Rightarrow> fp" where
  "int32_to_double w = round_to binary64 (of_int (sint w))"

text \<open>
  A \<^verbatim>\<open>double\<close> converted to \<^verbatim>\<open>int\<close> loses its fraction (truncation towards zero). C++
  gives the conversion no result when the truncated value is not an \<^verbatim>\<open>int\<close>, and
  processors disagree on what they return then.
\<close>

datatype fault = ConversionOutOfRange

definition trunc :: "real \<Rightarrow> int" where
  "trunc x = (if x < 0 then \<lceil>x\<rceil> else \<lfloor>x\<rfloor>)"

fun double_to_int32 :: "fp \<Rightarrow> fault + int32" where
  "double_to_int32 (Finite x) =
     (if - (2 ^ 31) \<le> trunc x \<and> trunc x < 2 ^ 31 then Inr (word_of_int (trunc x))
      else Inl ConversionOutOfRange)"
| "double_to_int32 a = Inl ConversionOutOfRange"


section \<open>Animations\<close>

text \<open>
  \<^verbatim>\<open>template <typename T>\<close>: what \<^verbatim>\<open>lerp\<close> does with a \<open>T\<close> is subtract two of them,
  convert one to \<^verbatim>\<open>double\<close> (the other operand of \<^verbatim>\<open>+\<close> and \<^verbatim>\<open>*\<close> is a \<^verbatim>\<open>double\<close>) and
  convert the \<^verbatim>\<open>double\<close> result back on return. The program instantiates the template
  at \<^verbatim>\<open>int\<close> and at \<^verbatim>\<open>float\<close>.
\<close>

record 'v numeric =
  minus_T :: "'v \<Rightarrow> 'v \<Rightarrow> 'v"
  to_double :: "'v \<Rightarrow> fp"
  of_double :: "fp \<Rightarrow> fault + 'v"

definition numeric_int :: "int32 numeric" where
  "numeric_int = \<lparr>minus_T = (\<lambda>a b. a - b), to_double = int32_to_double,
                  of_double = double_to_int32\<rparr>"

definition numeric_float :: "fp numeric" where
  "numeric_float = \<lparr>minus_T = fp_sub binary32, to_double = float_to_double,
                    of_double = (\<lambda>d. Inr (double_to_float d))\<rparr>"

text \<open>\<^verbatim>\<open>return (T)start + (prog * (end - start));\<close>\<close>

definition lerp :: "'v numeric \<Rightarrow> 'v \<Rightarrow> 'v \<Rightarrow> fp \<Rightarrow> fault + 'v" where
  "lerp N start_v end_v prog =
     of_double N (fp_add binary64 (to_double N start_v)
                    (fp_mul binary64 prog (to_double N (minus_T N end_v start_v))))"

text \<open>
  The fields of \<^verbatim>\<open>Animation<T>\<close>. The field \<^verbatim>\<open>property\<close> is a pointer; the property it
  points to is passed to \<open>tick\<close> and returned by it.
\<close>

record 'v Animation =
  start_time :: int64
  end_time :: int64
  start :: 'v
  "end" :: 'v
  duration :: int64

text \<open>\<^verbatim>\<open>prep\<close>; the argument is what \<^verbatim>\<open>AnimationCore::now()\<close> returns.\<close>

definition prep :: "int64 \<Rightarrow> 'v Animation \<Rightarrow> 'v Animation" where
  "prep clock a = a\<lparr>start_time := clock, end_time := clock + duration a\<rparr>"

definition get_progress :: "'v Animation \<Rightarrow> int64 \<Rightarrow> fp" where
  "get_progress a now =
     (let delta = now - start_time a
      in if delta = 0 then Finite 0
         else double_to_float (fp_div binary64 (int64_to_double delta)
                                 (int64_to_double (duration a))))"

definition get_value_for_progress :: "'v numeric \<Rightarrow> 'v Animation \<Rightarrow> fp \<Rightarrow> fault + 'v" where
  "get_value_for_progress N a prog = lerp N (start a) (end a) (float_to_double prog)"

definition tick ::
  "'v numeric \<Rightarrow> 'v Animation \<Rightarrow> ('v, 'h) ObservableProperty \<Rightarrow> int64
     \<Rightarrow> fault + ('v, 'h) ObservableProperty" where
  "tick N a p now =
     (let prog = get_progress a now
      in if fp_less (Finite 1) prog then Inr (p\<lparr>value := end a\<rparr>)
         else if fp_less prog (Finite 0) then Inr (p\<lparr>value := start a\<rparr>)
         else (case get_value_for_progress N a prog of
                 Inl e \<Rightarrow> Inl e
               | Inr v \<Rightarrow> Inr (p\<lparr>value := v\<rparr>)))"

text \<open>
  \<^verbatim>\<open>this->property->value = x;\<close> in the memory on which \<^verbatim>\<open>operator=\<close> of the property
  runs. The left operand is the field, a \<open>T\<close>, so the statement is a plain store: it
  does not go through \<^verbatim>\<open>operator=\<close> of \<^verbatim>\<open>ObservableProperty\<close>, makes no call and touches
  nothing but the field.
\<close>

definition write_value ::
  "'v \<Rightarrow> ('v, 'h) ObservableProperty \<times> 'h \<Rightarrow> 'v call list \<times> (('v, 'h) ObservableProperty \<times> 'h)" where
  "write_value v ph = ([], ((fst ph)\<lparr>value := v\<rparr>, snd ph))"

text \<open>
  \<^verbatim>\<open>tick\<close> as a step on that memory, with the invocations it makes: the three branches
  of the source, each a store into the field.
\<close>

definition tick_step ::
  "'v numeric \<Rightarrow> 'v Animation \<Rightarrow> ('v, 'h) ObservableProperty \<times> 'h \<Rightarrow> int64
     \<Rightarrow> fault + 'v call list \<times> (('v, 'h) ObservableProperty \<times> 'h)" where
  "tick_step N a ph now =
     (let prog = get_progress a now
      in if fp_less (Finite 1) prog then Inr (write_value (end a) ph)
         else if fp_less prog (Finite 0) then Inr (write_value (start a) ph)
         else (case get_value_for_progress N a prog of
                 Inl e \<Rightarrow> Inl e
               | Inr v \<Rightarrow> Inr (write_value v ph)))"

definition finished :: "'v Animation \<Rightarrow> int64 \<Rightarrow> bool" where
  "finished a now = fp_le (Finite 1) (get_progress a now)"


section \<open>Inputs of the examples\<close>

text \<open>
  The scenario of the specification: from 0 to 100 in 1000 ms, before \<open>prep\<close>, as an
  \<^verbatim>\<open>Animation<int>\<close> and as an \<^verbatim>\<open>Animation<float>\<close>; and a property of each type with one
  observer, holding 7.
\<close>

definition scenario_int :: "int32 Animation" where
  "scenario_int = \<lparr>start_time = 0, end_time = 0, start = 0, end = 100, duration = 1000\<rparr>"

definition scenario_float :: "fp Animation" where
  "scenario_float =
     \<lparr>start_time = 0, end_time = 0, start = Finite 0, end = Finite 100, duration = 1000\<rparr>"

definition red :: "(int32, unit) ObservableProperty" where
  "red = \<lparr>value = 7, observers = [\<lambda>old_v new_v s. s]\<rparr>"

definition width :: "(fp, unit) ObservableProperty" where
  "width = \<lparr>value = Finite 7, observers = [\<lambda>old_v new_v s. s]\<rparr>"

text \<open>
  A property holding 7 whose one observer counts, in the rest of the memory, how often it
  has been called.
\<close>

definition counting_observer :: "(int32, nat) observer" where
  "counting_observer old_v new_v s = (fst s, Suc (snd s))"

definition counted :: "(int32, nat) ObservableProperty" where
  "counted = \<lparr>value = 7, observers = [counting_observer]\<rparr>"

text \<open>An animation of a \<^verbatim>\<open>float\<close> from 100 down to 0.1f, the \<^verbatim>\<open>float\<close> nearest 0.1.\<close>

definition shrinking_float :: "fp Animation" where
  "shrinking_float =
     \<lparr>start_time = 0, end_time = 0, start = Finite 100, end = Finite (13421773 / 134217728),
      duration = 1000\<rparr>"

text \<open>An animation of a \<^verbatim>\<open>float\<close> between two large finite numbers of opposite sign.\<close>

definition wide_float :: "fp Animation" where
  "wide_float =
     \<lparr>start_time = 0, end_time = 0, start = Finite (- (2 ^ 127)), end = Finite (2 ^ 127),
      duration = 1000\<rparr>"

section \<open>Facts about notification\<close>

lemma notify_callees: "map callee (fst (notify obs i new_v s)) = [i ..< i + length obs]"
proof (induction obs arbitrary: i s)
  case Nil
  show ?case by simp
next
  case (Cons ob obs)
  have "map callee (fst (notify (ob # obs) i new_v s))
        = i # map callee (fst (notify obs (Suc i) new_v (ob (fst s) new_v s)))"
    by (simp add: Let_def)
  also have "\<dots> = i # [Suc i ..< Suc i + length obs]"
    by (simp only: Cons.IH)
  also have "\<dots> = [i ..< i + length (ob # obs)]"
    using upt_conv_Cons [of i "i + length (ob # obs)"] by simp
  finally show ?case .
qed

lemma notify_length: "length (fst (notify obs i new_v s)) = length obs"
  using notify_callees [of obs i new_v s, THEN arg_cong, of length] by simp

lemma notify_memory:
  "snd (notify obs i new_v s) = foldl (\<lambda>t ob. ob (fst t) new_v t) s obs"
  by (induction obs arbitrary: i s) (simp_all add: Let_def)

lemma notify_old_values:
  "k < length obs \<Longrightarrow>
   old_value (fst (notify obs i new_v s) ! k)
     = fst (foldl (\<lambda>t ob. ob (fst t) new_v t) s (take k obs))"
proof (induction obs arbitrary: i s k)
  case Nil
  then show ?case by simp
next
  case (Cons ob obs)
  show ?case
  proof (cases k)
    case 0
    then show ?thesis by (simp add: Let_def)
  next
    case (Suc j)
    with Cons.prems have "j < length obs" by simp
    from Cons.IH [OF this] Suc show ?thesis by (simp add: Let_def)
  qed
qed

lemma foldl_keeps_value:
  "\<forall>ob \<in> set obs. keeps_value ob \<Longrightarrow>
   fst (foldl (\<lambda>t ob. ob (fst t) new_v t) s obs) = fst s"
proof (induction obs arbitrary: s)
  case Nil
  show ?case by simp
next
  case (Cons ob obs)
  from Cons.prems have ob: "keeps_value ob" and rest: "\<forall>ob \<in> set obs. keeps_value ob"
    by simp_all
  have "fst (foldl (\<lambda>t ob. ob (fst t) new_v t) s (ob # obs))
        = fst (foldl (\<lambda>t ob. ob (fst t) new_v t) (ob (fst s) new_v s) obs)"
    by simp
  also have "\<dots> = fst (ob (fst s) new_v s)"
    by (rule Cons.IH [OF rest])
  also have "\<dots> = fst s"
    using ob unfolding keeps_value_def by blast
  finally show ?case .
qed

lemma notify_old_values_kept:
  assumes "\<forall>ob \<in> set obs. keeps_value ob" and "c \<in> set (fst (notify obs i new_v s))"
  shows "old_value c = fst s"
proof -
  from assms(2) obtain k where k: "k < length obs" and c: "c = fst (notify obs i new_v s) ! k"
    by (auto simp: in_set_conv_nth notify_length)
  have "\<forall>ob \<in> set (take k obs). keeps_value ob"
    using assms(1) by (auto dest: in_set_takeD)
  then show ?thesis
    by (simp add: c notify_old_values [OF k] foldl_keeps_value)
qed

lemma notify_map_new_value:
  "map new_value (fst (notify obs i new_v s)) = replicate (length obs) new_v"
  by (induction obs arbitrary: i s) (simp_all add: Let_def)

lemma notify_map_old_value:
  "map old_value (fst (notify obs i new_v s))
     = map (\<lambda>k. fst (foldl (\<lambda>t ob. ob (fst t) new_v t) s (take k obs))) [0 ..< length obs]"
  by (rule nth_equalityI) (simp_all add: notify_length notify_old_values)

lemma notify_map_old_value_kept:
  assumes "\<forall>ob \<in> set obs. keeps_value ob"
  shows "map old_value (fst (notify obs i new_v s)) = replicate (length obs) (fst s)"
proof (rule nth_equalityI)
  show "length (map old_value (fst (notify obs i new_v s))) = length (replicate (length obs) (fst s))"
    by (simp add: notify_length)
next
  fix k
  assume "k < length (map old_value (fst (notify obs i new_v s)))"
  then have k: "k < length obs" by (simp add: notify_length)
  then have "fst (notify obs i new_v s) ! k \<in> set (fst (notify obs i new_v s))"
    by (simp add: notify_length)
  from notify_old_values_kept [OF assms this] k
  show "map old_value (fst (notify obs i new_v s)) ! k = replicate (length obs) (fst s) ! k"
    by (simp add: notify_length)
qed

lemma keeps_value_idle: "keeps_value idle_observer"
  by (simp add: keeps_value_def idle_observer_def)



section \<open>Facts about rounding\<close>

subsection \<open>Nearest integer and exponent\<close>

lemma round_even_of_int: "round_even (of_int n) = n"
  by (simp add: round_even_def)

lemma round_even_bounds: "\<lfloor>x\<rfloor> \<le> round_even x \<and> round_even x \<le> \<lfloor>x\<rfloor> + 1"
  by (simp add: round_even_def Let_def)

lemma round_even_mono:
  assumes "x \<le> y"
  shows "round_even x \<le> round_even y"
proof (cases "\<lfloor>x\<rfloor> < \<lfloor>y\<rfloor>")
  case True
  with round_even_bounds [of x] round_even_bounds [of y] show ?thesis by linarith
next
  case False
  with floor_mono [OF assms] have "\<lfloor>x\<rfloor> = \<lfloor>y\<rfloor>" by linarith
  with assms show ?thesis by (auto simp: round_even_def Let_def)
qed

lemma round_even_error: "\<bar>of_int (round_even x) - x\<bar> \<le> 1 / 2"
proof -
  have "of_int \<lfloor>x\<rfloor> \<le> x" "x < of_int \<lfloor>x\<rfloor> + 1" by linarith+
  then show ?thesis by (auto simp: round_even_def Let_def abs_le_iff)
qed

lemma ilog2_lower_ge1:
  assumes "1 \<le> x"
  shows "2 powi ilog2 x \<le> x" and "x < 2 powi (ilog2 x + 1)"
proof -
  define n where "n = \<lfloor>x\<rfloor>"
  have n: "1 \<le> n" using assms by (simp add: n_def le_floor_iff)
  then have b: "2 ^ nat (bitlen n - 1) \<le> n" "n < 2 ^ nat (bitlen n)"
    using bitlen_bounds [of n] by simp_all
  have k: "1 \<le> bitlen n" using n by (simp add: bitlen_alt_def)
  have e: "ilog2 x = bitlen n - 1" using assms by (simp add: ilog2_def n_def)
  have "(2::real) powi ilog2 x = of_int (2 ^ nat (bitlen n - 1))"
    using k by (simp add: e power_int_nonneg_exp)
  also have "\<dots> \<le> of_int n" using b(1) by (simp only: of_int_le_iff)
  also have "\<dots> \<le> x" by (simp add: n_def)
  finally show "2 powi ilog2 x \<le> x" .
  have "x < of_int (n + 1)" unfolding n_def by linarith
  also have "\<dots> \<le> of_int (2 ^ nat (bitlen n))" using b(2) by (simp only: of_int_le_iff)
  also have "\<dots> = 2 powi (ilog2 x + 1)"
    using k by (simp add: e power_int_nonneg_exp)
  finally show "x < 2 powi (ilog2 x + 1)" .
qed

lemma ilog2_lower_lt1:
  assumes "0 < x" "x < 1"
  shows "2 powi ilog2 x \<le> x" and "x < 2 powi (ilog2 x + 1)"
proof -
  define m where "m = \<lceil>1 / x\<rceil> - 1"
  have y: "1 < 1 / x" using assms by simp
  then have m: "1 \<le> m" by (simp add: m_def less_ceiling_iff)
  then have b: "2 ^ nat (bitlen m - 1) \<le> m" "m < 2 ^ nat (bitlen m)"
    using bitlen_bounds [of m] by simp_all
  have k: "1 \<le> bitlen m" using m by (simp add: bitlen_alt_def)
  have e: "ilog2 x = - bitlen m" using assms by (simp add: ilog2_def m_def)
  have "1 / x \<le> of_int (m + 1)" by (simp add: m_def)
  also have "\<dots> \<le> of_int (2 ^ nat (bitlen m))" using b(2) by (simp only: of_int_le_iff)
  finally have "1 / x \<le> 2 ^ nat (bitlen m)" by simp
  then have "1 / 2 ^ nat (bitlen m) \<le> x"
    using assms(1) by (simp add: field_simps)
  moreover have "(2::real) powi ilog2 x = 1 / 2 ^ nat (bitlen m)"
    using k by (simp add: e power_int_minus_divide power_int_nonneg_exp)
  ultimately show "2 powi ilog2 x \<le> x" by simp
  have "of_int (2 ^ nat (bitlen m - 1)) \<le> (of_int m :: real)" using b(1) by (simp only: of_int_le_iff)
  also have "(of_int m :: real) < 1 / x" unfolding m_def using ceiling_correct [of "1 / x"] by simp
  finally have "2 ^ nat (bitlen m - 1) < 1 / x" by simp
  then have "x < 1 / 2 ^ nat (bitlen m - 1)"
    using assms(1) by (simp add: field_simps)
  moreover have "(2::real) powi (ilog2 x + 1) = 1 / 2 ^ nat (bitlen m - 1)"
  proof -
    have "ilog2 x + 1 = - (bitlen m - 1)" by (simp add: e)
    then show ?thesis using k by (simp only: power_int_minus_divide) (simp add: power_int_nonneg_exp)
  qed
  ultimately show "x < 2 powi (ilog2 x + 1)" by simp
qed

lemma ilog2_bounds:
  assumes "0 < x"
  shows "2 powi ilog2 x \<le> x" and "x < 2 powi (ilog2 x + 1)"
  using assms ilog2_lower_ge1 [of x] ilog2_lower_lt1 [of x] by (cases "1 \<le> x"; simp)+

lemma ilog2_unique:
  assumes "2 powi k \<le> x" "x < 2 powi (k + 1)"
  shows "ilog2 x = k"
proof -
  have pos: "0 < x" using assms(1) by (rule less_le_trans [rotated]) simp
  note b = ilog2_bounds [OF pos]
  have "(2::real) powi k < 2 powi (ilog2 x + 1)" using assms(1) b(2) by simp
  then have "k < ilog2 x + 1"
    by (metis power_int_increasing not_less one_le_numeral)
  moreover have "(2::real) powi ilog2 x < 2 powi (k + 1)" using assms(2) b(1) by simp
  then have "ilog2 x < k + 1"
    by (metis power_int_increasing not_less one_le_numeral)
  ultimately show ?thesis by simp
qed

lemma ilog2_mono:
  assumes "0 < x" "x \<le> y"
  shows "ilog2 x \<le> ilog2 y"
proof -
  have "(2::real) powi ilog2 x \<le> x" using assms(1) by (rule ilog2_bounds)
  also have "x \<le> y" by fact
  also have "y < 2 powi (ilog2 y + 1)" using assms by (intro ilog2_bounds) simp
  finally have "ilog2 x < ilog2 y + 1"
    by (metis power_int_increasing not_less one_le_numeral)
  then show ?thesis by simp
qed

subsection \<open>Rounding to a format\<close>

lemma ulp_pos: "0 < ulp f m"
  by (simp add: ulp_def)

lemma round_mag_zero: "round_mag f 0 = 0"
  by (simp add: round_mag_def round_even_def)

lemma round_mag_grid_le:
  assumes "of_int j * ulp f m \<le> m"
  shows "of_int j * ulp f m \<le> round_mag f m"
proof -
  have "of_int j \<le> m / ulp f m"
    using assms ulp_pos [of f m] by (simp add: field_simps)
  then have "round_even (of_int j) \<le> round_even (m / ulp f m)"
    by (rule round_even_mono)
  then have "(of_int j :: real) \<le> of_int (round_even (m / ulp f m))"
    by (simp add: round_even_of_int)
  then show ?thesis
    unfolding round_mag_def using ulp_pos [of f m] by (simp add: mult_right_mono)
qed

lemma round_mag_grid_ge:
  assumes "m \<le> of_int j * ulp f m"
  shows "round_mag f m \<le> of_int j * ulp f m"
proof -
  have "m / ulp f m \<le> of_int j"
    using assms ulp_pos [of f m] by (simp add: field_simps)
  then have "round_even (m / ulp f m) \<le> round_even (of_int j)"
    by (rule round_even_mono)
  then have "(of_int (round_even (m / ulp f m)) :: real) \<le> of_int j"
    by (simp add: round_even_of_int)
  then show ?thesis
    unfolding round_mag_def using ulp_pos [of f m] by (simp add: mult_right_mono)
qed

lemma round_mag_grid:
  assumes "m = of_int j * ulp f m"
  shows "round_mag f m = m"
  using round_mag_grid_le [of j f m] round_mag_grid_ge [of m j f] assms by simp

lemma round_mag_nonneg:
  assumes "0 \<le> m"
  shows "0 \<le> round_mag f m"
  using round_mag_grid_le [of 0 f m] assms by simp

text \<open>A power of two at or above the unit in the last place is on the grid.\<close>
lemma pow2_on_grid:
  assumes "max (ilog2 m) (emin f) - int (precision f) + 1 \<le> k"
  shows "2 powi k = of_int (2 ^ nat (k - (max (ilog2 m) (emin f) - int (precision f) + 1))) * ulp f m"
proof -
  define u where "u = max (ilog2 m) (emin f) - int (precision f) + 1"
  have "(2::real) powi k = 2 powi ((k - u) + u)" by simp
  also have "\<dots> = 2 powi (k - u) * 2 powi u"
    by (rule power_int_add) simp
  also have "(2::real) powi (k - u) = 2 ^ nat (k - u)"
    using assms by (simp add: u_def power_int_nonneg_exp)
  finally show ?thesis by (simp add: u_def ulp_def)
qed

lemma round_mag_le_pow2:
  assumes "m \<le> 2 powi k" "max (ilog2 m) (emin f) - int (precision f) + 1 \<le> k"
  shows "round_mag f m \<le> 2 powi k"
  using round_mag_grid_ge [of m _ f] assms(1) pow2_on_grid [OF assms(2)] by metis

lemma round_mag_ge_pow2:
  assumes "2 powi k \<le> m" "max (ilog2 m) (emin f) - int (precision f) + 1 \<le> k"
  shows "2 powi k \<le> round_mag f m"
  using round_mag_grid_le [of _ f m] assms(1) pow2_on_grid [OF assms(2)] by metis

lemma round_mag_mono:
  assumes p: "0 < precision f" and "0 \<le> x" "x \<le> y"
  shows "round_mag f x \<le> round_mag f y"
proof (cases "x = 0")
  case True
  with assms show ?thesis by (simp add: round_mag_zero round_mag_nonneg)
next
  case False
  with assms have x: "0 < x" and y: "0 < y" by simp_all
  define ex where "ex = max (ilog2 x) (emin f)"
  define ey where "ey = max (ilog2 y) (emin f)"
  have le: "ex \<le> ey"
    using ilog2_mono [OF x assms(3)] by (simp add: ex_def ey_def)
  show ?thesis
  proof (cases "ex = ey")
    case True
    then have u: "ulp f x = ulp f y" by (simp add: ulp_def ex_def ey_def)
    have "x / ulp f y \<le> y / ulp f y"
      using assms(3) ulp_pos [of f y] by (simp add: divide_right_mono)
    then have "round_even (x / ulp f y) \<le> round_even (y / ulp f y)"
      by (rule round_even_mono)
    then show ?thesis
      unfolding round_mag_def u using ulp_pos [of f y] by (simp add: mult_right_mono)
  next
    case False
    with le have lt: "ex < ey" by simp
    then have ey: "ey = ilog2 y" by (auto simp: ex_def ey_def max_def split: if_splits)
    have "x < 2 powi (ilog2 x + 1)" using x by (rule ilog2_bounds)
    also have "\<dots> \<le> 2 powi (ex + 1)"
      by (rule power_int_increasing) (simp_all add: ex_def)
    finally have "x \<le> 2 powi (ex + 1)" by simp
    then have "round_mag f x \<le> 2 powi (ex + 1)"
      by (rule round_mag_le_pow2) (use p in \<open>simp add: ex_def\<close>)
    also have "\<dots> \<le> 2 powi ey"
      by (rule power_int_increasing) (use lt in simp_all)
    also have "\<dots> \<le> round_mag f y"
    proof (rule round_mag_ge_pow2)
      show "2 powi ey \<le> y" unfolding ey using y by (rule ilog2_bounds)
      show "max (ilog2 y) (emin f) - int (precision f) + 1 \<le> ey"
        using p by (simp add: ey_def)
    qed
    finally show ?thesis .
  qed
qed

text \<open>Integers below \<open>2 ^ precision\<close> are numbers of the format.\<close>
lemma round_mag_of_nat:
  assumes "emin f \<le> 0" and "0 \<le> n" "n < 2 ^ precision f"
  shows "round_mag f (of_int n) = of_int n"
proof (cases "n = 0")
  case True
  then show ?thesis by (simp add: round_mag_zero)
next
  case False
  with assms have n: "1 \<le> n" by simp
  define e where "e = ilog2 (of_int n)"
  have pos: "(0::real) < of_int n" using n by simp
  have "(2::real) powi 0 \<le> of_int n" using n by simp
  also have "(of_int n :: real) < 2 powi (e + 1)" unfolding e_def using pos by (rule ilog2_bounds)
  finally have e0: "0 \<le> e"
    by (metis power_int_increasing not_less one_le_numeral add.commute zless_add1_eq less_le)
  have "(2::real) powi e \<le> of_int n" unfolding e_def using pos by (rule ilog2_bounds)
  also have "(of_int n :: real) < 2 powi int (precision f)"
  proof -
    have "(of_int n :: real) < of_int (2 ^ precision f)"
      using assms(3) by (simp only: of_int_less_iff)
    then show ?thesis by simp
  qed
  finally have ep: "e < int (precision f)"
    by (metis power_int_increasing not_less one_le_numeral)
  have "max (ilog2 (of_int n)) (emin f) = e"
    using e0 assms(1) by (simp add: e_def)
  then have u: "ulp f (of_int n) = 2 powi (e - int (precision f) + 1)"
    by (simp add: ulp_def)
  define s where "s = nat (int (precision f) - 1 - e)"
  have "e - int (precision f) + 1 = - int s"
    using ep by (simp add: s_def)
  then have "(2::real) powi (e - int (precision f) + 1) = 2 powi (- int s)"
    by (rule arg_cong)
  also have "\<dots> = 1 / 2 ^ s" by (simp add: power_int_minus_divide)
  finally have u': "ulp f (of_int n) = 1 / 2 ^ s" using u by simp
  have "of_int n = of_int (n * 2 ^ s) * ulp f (of_int n)"
    by (simp add: u')
  then show ?thesis by (rule round_mag_grid)
qed

lemma round_to_not_NaN [simp]: "round_to f x \<noteq> NaN"
  by (simp add: round_to_def Let_def)

lemma round_to_zero [simp]: "round_to f 0 = Finite 0"
  by (simp add: round_to_def round_mag_zero not_le)

lemma round_to_mono:
  assumes p: "0 < precision f" and "x \<le> y"
  shows "fp_le (round_to f x) (round_to f y)"
proof -
  consider "0 \<le> x" | "x < 0" "0 \<le> y" | "y < 0" using assms(2) by linarith
  then show ?thesis
  proof cases
    case 1
    with assms have "round_mag f \<bar>x\<bar> \<le> round_mag f \<bar>y\<bar>"
      by (intro round_mag_mono) simp_all
    with 1 assms show ?thesis by (auto simp: round_to_def Let_def)
  next
    case 2
    have "0 \<le> round_mag f \<bar>x\<bar>" "0 \<le> round_mag f \<bar>y\<bar>" by (simp_all add: round_mag_nonneg)
    with 2 show ?thesis by (auto simp: round_to_def Let_def)
  next
    case 3
    with assms have "round_mag f \<bar>y\<bar> \<le> round_mag f \<bar>x\<bar>"
      by (intro round_mag_mono) simp_all
    with 3 assms show ?thesis by (auto simp: round_to_def Let_def)
  qed
qed

lemma round_to_of_int:
  assumes "emin f \<le> 0" "int (precision f) \<le> emax f + 1" and "\<bar>n\<bar> < 2 ^ precision f"
  shows "round_to f (of_int n) = Finite (of_int n)"
proof -
  have r: "round_mag f \<bar>of_int n\<bar> = of_int \<bar>n\<bar>"
    using round_mag_of_nat [of f "\<bar>n\<bar>"] assms by simp
  have "(of_int \<bar>n\<bar> :: real) < 2 powi int (precision f)"
  proof -
    have "(of_int \<bar>n\<bar> :: real) < of_int (2 ^ precision f)"
      using assms(3) by (simp only: of_int_less_iff)
    then show ?thesis by simp
  qed
  also have "\<dots> \<le> 2 powi (emax f + 1)"
    by (rule power_int_increasing) (use assms(2) in simp_all)
  finally have "\<not> 2 powi (emax f + 1) \<le> (of_int \<bar>n\<bar> :: real)" by simp
  then show ?thesis
    by (simp add: round_to_def r Let_def del: of_int_abs)
qed


subsection \<open>Conversions\<close>

text \<open>The exact value of an integer is written \<open>of_int (sint w)\<close> throughout.\<close>

declare of_int_sint [simp del]

lemma binary64_fields [simp]:
  "precision binary64 = 53" "emin binary64 = - 1022" "emax binary64 = 1023"
  by (simp_all add: binary64_def)

lemma binary32_fields [simp]:
  "precision binary32 = 24" "emin binary32 = - 126" "emax binary32 = 127"
  by (simp_all add: binary32_def)

lemma fp_le_NInf: "b \<noteq> NaN \<Longrightarrow> fp_le NInf b"
  by (cases b) simp_all

lemma fp_le_PInf: "a \<noteq> NaN \<Longrightarrow> fp_le a PInf"
  by (cases a) simp_all

lemma round_to_sandwich:
  assumes "0 < precision f" and "lo \<le> x" "x \<le> hi"
    and "round_to f lo = Finite lo" "round_to f hi = Finite hi"
  obtains r where "round_to f x = Finite r" "lo \<le> r" "r \<le> hi"
proof -
  have 1: "fp_le (Finite lo) (round_to f x)"
    using round_to_mono [OF assms(1,2)] assms(4) by simp
  have 2: "fp_le (round_to f x) (Finite hi)"
    using round_to_mono [OF assms(1,3)] assms(5) by simp
  from 1 2 that show thesis by (cases "round_to f x") auto
qed

lemma ilog2_pow2: "ilog2 (2 powi k) = k"
  by (rule ilog2_unique) (simp_all add: power_int_strict_increasing)

lemma round_mag_pow2:
  assumes "0 < precision f" "emin f - int (precision f) + 1 \<le> k"
  shows "round_mag f (2 powi k) = 2 powi k"
proof -
  have "max (ilog2 (2 powi k)) (emin f) - int (precision f) + 1 \<le> k"
    using assms by (simp add: ilog2_pow2)
  from pow2_on_grid [OF this] show ?thesis
    by (metis round_mag_grid)
qed

lemma round_to_pow2:
  assumes "0 < precision f" "emin f - int (precision f) + 1 \<le> k" "k \<le> emax f"
  shows "round_to f (2 powi k) = Finite (2 powi k)" and "round_to f (- (2 powi k)) = Finite (- (2 powi k))"
proof -
  have "(2::real) powi k < 2 powi (emax f + 1)"
    by (rule power_int_strict_increasing) (use assms(3) in simp_all)
  then have "\<not> 2 powi (emax f + 1) \<le> (2::real) powi k" by simp
  then show "round_to f (2 powi k) = Finite (2 powi k)"
    and "round_to f (- (2 powi k)) = Finite (- (2 powi k))"
    using round_mag_pow2 [OF assms(1,2)] by (simp_all add: round_to_def Let_def not_less)
qed

lemma round_to_binary64_int:
  assumes "\<bar>n\<bar> < 2 ^ 53"
  shows "round_to binary64 (of_int n) = Finite (of_int n)"
  using round_to_of_int [of binary64 n] assms by simp

lemma int32_to_double_exact: "int32_to_double w = Finite (of_int (sint w))"
proof -
  have "- (2 ^ 31) \<le> sint w" "sint w < 2 ^ 31"
    using sint_ge [of w] sint_lt [of w] by simp_all
  then have "\<bar>sint w\<bar> < 2 ^ 53" by simp
  then show ?thesis unfolding int32_to_double_def by (rule round_to_binary64_int)
qed

lemma int64_to_double_finite:
  obtains x where "int64_to_double w = Finite x" "- (2 ^ 63) \<le> x" "x \<le> 2 ^ 63"
    "1 \<le> sint w \<Longrightarrow> 1 \<le> x" "sint w \<le> - 1 \<Longrightarrow> x \<le> - 1"
proof -
  have b: "- (2 ^ 63) \<le> sint w" "sint w < 2 ^ 63"
    using sint_ge [of w] sint_lt [of w] by simp_all
  have lo: "round_to binary64 (- (2 ^ 63)) = Finite (- (2 ^ 63))"
    and hi: "round_to binary64 (2 ^ 63) = Finite (2 ^ 63)"
    using round_to_pow2 [of binary64 63] by simp_all
  have one: "round_to binary64 1 = Finite 1" "round_to binary64 (- 1) = Finite (- 1)"
    using round_to_pow2 [of binary64 0] by simp_all
  have "(of_int (- (2 ^ 63)) :: real) \<le> of_int (sint w)" "(of_int (sint w) :: real) \<le> of_int (2 ^ 63)"
    using b by (simp_all only: of_int_le_iff)
  then have "(- (2 ^ 63) :: real) \<le> of_int (sint w)" "(of_int (sint w) :: real) \<le> 2 ^ 63"
    by (simp_all del: of_int_sint)
  then obtain x where x: "round_to binary64 (of_int (sint w)) = Finite x" "- (2 ^ 63) \<le> x" "x \<le> 2 ^ 63"
    using round_to_sandwich [OF _ _ _ lo hi] by (metis binary64_fields(1) zero_less_numeral)
  have p: "1 \<le> x" if "1 \<le> sint w"
  proof -
    have "(of_int 1 :: real) \<le> of_int (sint w)" using that by (simp only: of_int_le_iff)
    then have "fp_le (round_to binary64 1) (round_to binary64 (of_int (sint w)))"
      by (intro round_to_mono) (simp_all del: of_int_sint)
    then show ?thesis by (simp add: one x del: of_int_sint)
  qed
  have n: "x \<le> - 1" if "sint w \<le> - 1"
  proof -
    have "(of_int (sint w) :: real) \<le> of_int (- 1)" using that by (simp only: of_int_le_iff)
    then have "fp_le (round_to binary64 (of_int (sint w))) (round_to binary64 (- 1))"
      by (intro round_to_mono) (simp_all del: of_int_sint)
    then show ?thesis by (simp add: one x del: of_int_sint)
  qed
  from x p n show thesis by (intro that) (simp_all add: int64_to_double_def)
qed

lemma int64_to_double_mono:
  assumes "sint v \<le> sint w"
  shows "fp_le (int64_to_double v) (int64_to_double w)"
proof -
  have "(of_int (sint v) :: real) \<le> of_int (sint w)" using assms by (simp only: of_int_le_iff)
  then show ?thesis unfolding int64_to_double_def by (intro round_to_mono) simp_all
qed

lemma double_to_float_not_NaN: "a \<noteq> NaN \<Longrightarrow> double_to_float a \<noteq> NaN"
  by (cases a) simp_all

lemma double_to_float_mono:
  assumes "fp_le a b"
  shows "fp_le (double_to_float a) (double_to_float b)"
proof (cases a)
  case (Finite x)
  show ?thesis
  proof (cases b)
    case (Finite y)
    with \<open>a = Finite x\<close> assms show ?thesis by (simp add: round_to_mono)
  next
    case PInf
    with \<open>a = Finite x\<close> show ?thesis by (simp add: fp_le_PInf)
  qed (use assms \<open>a = Finite x\<close> in simp_all)
next
  case PInf
  with assms show ?thesis by (cases b) simp_all
next
  case NInf
  with assms have "b \<noteq> NaN" by (cases b) simp_all
  with NInf show ?thesis by (simp add: fp_le_NInf double_to_float_not_NaN)
next
  case NaN
  with assms show ?thesis by simp
qed

subsection \<open>Interpolation\<close>

lemma round_to_Finite_iff:
  "round_to f x = Finite x \<longleftrightarrow> round_mag f \<bar>x\<bar> = \<bar>x\<bar> \<and> \<bar>x\<bar> < 2 powi (emax f + 1)"
  by (auto simp: round_to_def Let_def not_le)

text \<open>A number of a format is a number of every format that is finer and wider.\<close>
lemma format_subset:
  assumes "precision f \<le> precision g" "emin g \<le> emin f" "emax f \<le> emax g"
    and x: "round_to f x = Finite x"
  shows "round_to g x = Finite x"
proof -
  define m where "m = \<bar>x\<bar>"
  from x have m: "round_mag f m = m" and lt: "m < 2 powi (emax f + 1)"
    by (simp_all add: round_to_Finite_iff m_def)
  define j where "j = round_even (m / ulp f m)"
  have mj: "m = of_int j * ulp f m" using m by (simp add: round_mag_def j_def)
  define k where "k = (max (ilog2 m) (emin f) - int (precision f)) - (max (ilog2 m) (emin g) - int (precision g))"
  have k: "0 \<le> k" using assms(1,2) by (simp add: k_def max_def)
  have eq: "max (ilog2 m) (emin f) - int (precision f) + 1 = k + (max (ilog2 m) (emin g) - int (precision g) + 1)"
    by (simp add: k_def)
  have "ulp f m = 2 powi (k + (max (ilog2 m) (emin g) - int (precision g) + 1))"
    by (simp only: ulp_def eq)
  also have "\<dots> = 2 powi k * ulp g m"
    unfolding ulp_def by (rule power_int_add) simp
  also have "(2::real) powi k = of_int (2 ^ nat k)"
    using k by (simp add: power_int_nonneg_exp)
  finally have "m = of_int (j * 2 ^ nat k) * ulp g m"
    using mj by simp
  then have "round_mag g m = m" by (rule round_mag_grid)
  moreover have "m < 2 powi (emax g + 1)"
  proof -
    have "(2::real) powi (emax f + 1) \<le> 2 powi (emax g + 1)"
      by (rule power_int_increasing) (use assms(3) in simp_all)
    with lt show ?thesis by simp
  qed
  ultimately show ?thesis by (simp add: round_to_Finite_iff m_def)
qed

lemma float_is_double:
  "round_to binary32 x = Finite x \<Longrightarrow> round_to binary64 x = Finite x"
  by (rule format_subset [of binary32]) simp_all

text \<open>
  The interpolation in \<^verbatim>\<open>double\<close>, when both endpoints and their difference are numbers
  of the format and the progress lies in the unit interval.
\<close>
lemma interpolation_between:
  assumes s: "round_to binary64 s = Finite s" and e: "round_to binary64 e = Finite e"
    and d: "round_to binary64 (e - s) = Finite (e - s)"
    and r: "0 \<le> r" "r \<le> 1"
  obtains v where
    "fp_add binary64 (Finite s) (fp_mul binary64 (Finite r) (Finite (e - s))) = Finite v"
    "min s e \<le> v" "v \<le> max s e"
proof -
  have lo: "round_to binary64 (min 0 (e - s)) = Finite (min 0 (e - s))"
    and hi: "round_to binary64 (max 0 (e - s)) = Finite (max 0 (e - s))"
    using d by (simp_all add: min_def max_def)
  have "min 0 (e - s) \<le> r * (e - s)" "r * (e - s) \<le> max 0 (e - s)"
    using r by (auto simp: min_def max_def mult_le_cancel_right1 mult_nonneg_nonneg
        mult_nonneg_nonpos mult_le_cancel_right2 intro: order_trans)
  then obtain m where m: "round_to binary64 (r * (e - s)) = Finite m"
    "min 0 (e - s) \<le> m" "m \<le> max 0 (e - s)"
    using round_to_sandwich [OF _ _ _ lo hi] by (metis binary64_fields(1) zero_less_numeral)
  have lo': "round_to binary64 (min s e) = Finite (min s e)"
    and hi': "round_to binary64 (max s e) = Finite (max s e)"
    using s e by (simp_all add: min_def max_def)
  have "min s e \<le> s + m" "s + m \<le> max s e"
    using m(2,3) by (auto simp: min_def max_def split: if_splits)
  then obtain v where v: "round_to binary64 (s + m) = Finite v" "min s e \<le> v" "v \<le> max s e"
    using round_to_sandwich [OF _ _ _ lo' hi'] by (metis binary64_fields(1) zero_less_numeral)
  show thesis by (rule that [of v]) (simp_all add: m(1) v)
qed

lemma trunc_of_int [simp]: "trunc (of_int n) = n"
  by (simp add: trunc_def)

lemma trunc_between:
  assumes "of_int lo \<le> x" "x \<le> of_int hi"
  shows "lo \<le> trunc x" "trunc x \<le> hi"
  using assms by (auto simp: trunc_def le_floor_iff ceiling_le_iff intro: order_trans) linarith+

lemma trunc_toward_zero:
  "\<bar>of_int (trunc x)\<bar> \<le> \<bar>x\<bar> \<and> \<bar>x\<bar> < \<bar>of_int (trunc x)\<bar> + 1 \<and> 0 \<le> of_int (trunc x) * x"
proof (cases "x < 0")
  case True
  have c: "of_int \<lceil>x\<rceil> < x + 1" "x \<le> of_int \<lceil>x\<rceil>" by linarith+
  have "\<lceil>x\<rceil> \<le> 0" using True by (simp add: ceiling_le_iff)
  then have z: "(of_int \<lceil>x\<rceil> :: real) \<le> 0" by simp
  then have m: "0 \<le> of_int \<lceil>x\<rceil> * x" using True by (simp add: mult_nonpos_nonpos)
  have a: "\<bar>of_int \<lceil>x\<rceil> :: real\<bar> = - of_int \<lceil>x\<rceil>" "\<bar>x\<bar> = - x"
    using z True by (simp_all only: abs_of_nonpos abs_of_neg)
  have t: "trunc x = \<lceil>x\<rceil>" using True by (simp add: trunc_def)
  from c m show ?thesis unfolding t a by linarith
next
  case False
  have c: "of_int \<lfloor>x\<rfloor> \<le> x" "x < of_int \<lfloor>x\<rfloor> + 1" by linarith+
  have "0 \<le> \<lfloor>x\<rfloor>" using False by simp
  then have z: "(0::real) \<le> of_int \<lfloor>x\<rfloor>" by simp
  then have m: "0 \<le> of_int \<lfloor>x\<rfloor> * x" using False by (simp add: mult_nonneg_nonneg)
  have a: "\<bar>of_int \<lfloor>x\<rfloor> :: real\<bar> = of_int \<lfloor>x\<rfloor>" "\<bar>x\<bar> = x"
    using z False by (simp_all only: abs_of_nonneg not_less)
  have t: "trunc x = \<lfloor>x\<rfloor>" using False by (simp add: trunc_def)
  from c m show ?thesis unfolding t a by linarith
qed


section \<open>Facts about progress\<close>

lemma fp_div_not_NaN:
  assumes "x \<noteq> 0"
  shows "fp_div f (Finite x) (Finite y) \<noteq> NaN"
  using assms by simp

lemma get_progress_not_NaN: "get_progress a now \<noteq> NaN"
proof (cases "now - start_time a = 0")
  case True
  then show ?thesis by (simp add: get_progress_def)
next
  case False
  then have "sint (now - start_time a) \<noteq> 0" by (simp add: signed_eq_0_iff)
  then consider "1 \<le> sint (now - start_time a)" | "sint (now - start_time a) \<le> - 1" by linarith
  then obtain x where x: "int64_to_double (now - start_time a) = Finite x" "x \<noteq> 0"
    by cases (rule int64_to_double_finite [of "now - start_time a"]; force)+
  obtain y where y: "int64_to_double (duration a) = Finite y"
    by (rule int64_to_double_finite)
  from False show ?thesis
    by (simp add: get_progress_def x y double_to_float_not_NaN fp_div_not_NaN del: fp_div.simps)
qed

lemma get_progress_quotient:
  assumes "int64_to_double (duration a) = Finite y" "y \<noteq> 0"
  shows "get_progress a now
         = double_to_float (fp_div binary64 (int64_to_double (now - start_time a)) (Finite y))"
proof (cases "now - start_time a = 0")
  case True
  then have "int64_to_double (now - start_time a) = Finite 0"
    by (simp add: int64_to_double_def)
  with True assms show ?thesis by (simp add: get_progress_def)
next
  case False
  with assms show ?thesis by (simp add: get_progress_def)
qed

lemma sint_diff_in_range:
  fixes a b :: int64
  assumes "- (2 ^ 63) \<le> sint a - sint b" "sint a - sint b < 2 ^ 63"
  shows "sint (a - b) = sint a - sint b"
  using assms by (simp add: sint_word_ariths signed_take_bit_int_eq_self)

lemma get_progress_mono_aux:
  assumes d: "0 < sint (duration a)"
    and le: "sint (t1 - start_time a) \<le> sint (t2 - start_time a)"
  shows "fp_le (get_progress a t1) (get_progress a t2)"
proof -
  obtain y where y: "int64_to_double (duration a) = Finite y" "1 \<le> y"
    using d by (rule_tac int64_to_double_finite [of "duration a"]) simp
  obtain x1 where x1: "int64_to_double (t1 - start_time a) = Finite x1"
    by (rule int64_to_double_finite)
  obtain x2 where x2: "int64_to_double (t2 - start_time a) = Finite x2"
    by (rule int64_to_double_finite)
  have "x1 \<le> x2" using int64_to_double_mono [OF le] by (simp add: x1 x2)
  then have "x1 / y \<le> x2 / y" using y(2) by (simp add: divide_right_mono)
  then have "fp_le (round_to binary64 (x1 / y)) (round_to binary64 (x2 / y))"
    by (intro round_to_mono) simp_all
  then have "fp_le (fp_div binary64 (Finite x1) (Finite y)) (fp_div binary64 (Finite x2) (Finite y))"
    using y(2) by simp
  then have "fp_le (double_to_float (fp_div binary64 (Finite x1) (Finite y)))
               (double_to_float (fp_div binary64 (Finite x2) (Finite y)))"
    by (rule double_to_float_mono)
  moreover have "y \<noteq> 0" using y(2) by simp
  ultimately show ?thesis
    by (simp add: get_progress_quotient [OF y(1)] x1 x2 del: fp_div.simps)
qed


section \<open>The scenario, evaluated\<close>

lemma bitlen_numeral [simp]:
  "bitlen (numeral Num.One) = 1"
  "bitlen (numeral (Num.Bit0 n)) = 1 + bitlen (numeral n)"
  "bitlen (numeral (Num.Bit1 n)) = 1 + bitlen (numeral n)"
proof -
  show "bitlen (numeral Num.One) = 1" by (simp add: compute_bitlen)
  have "bitlen (numeral (Num.Bit0 n)) = bitlen (numeral (Num.Bit0 n) div 2) + 1"
    by (subst compute_bitlen) simp
  then show "bitlen (numeral (Num.Bit0 n)) = 1 + bitlen (numeral n)" by simp
  have "bitlen (numeral (Num.Bit1 n)) = bitlen (numeral (Num.Bit1 n) div 2) + 1"
    by (subst compute_bitlen) simp
  then show "bitlen (numeral (Num.Bit1 n)) = 1 + bitlen (numeral n)" by simp
qed

lemma bitlen_1 [simp]: "bitlen 1 = 1"
  using bitlen_numeral(1) by simp

text \<open>The definitions that evaluating a floating-point operation on numerals unfolds.\<close>

lemmas fp_eval = round_to_def round_mag_def ulp_def ilog2_def round_even_def Let_def
  binary64_def binary32_def int64_to_double_def int32_to_double_def trunc_def
  float_to_double_def lerp_def numeric_int_def numeric_float_def fp_sub_def

lemma get_progress_prep:
  "get_progress (prep clock a) (clock + k)
     = (if k = 0 then Finite 0
        else double_to_float (fp_div binary64 (int64_to_double k) (int64_to_double (duration a))))"
  by (simp add: get_progress_def prep_def)

lemma quotient_1200_1000:
  "double_to_float (fp_div binary64 (int64_to_double 1200) (int64_to_double 1000))
     = Finite (5033165 / 4194304)"
  by (simp add: fp_eval)

lemma quotient_500_1000:
  "double_to_float (fp_div binary64 (int64_to_double 500) (int64_to_double 1000)) = Finite (1 / 2)"
  by (simp add: fp_eval)

lemma quotient_999_1000:
  "double_to_float (fp_div binary64 (int64_to_double 999) (int64_to_double 1000))
     = Finite (16760439 / 16777216)"
  by (simp add: fp_eval)

lemma quotient_minus_1000_1000:
  "double_to_float (fp_div binary64 (int64_to_double (- 1000)) (int64_to_double 1000)) = Finite (- 1)"
  by (simp add: fp_eval)

lemma lerp_int_half: "lerp numeric_int 0 100 (float_to_double (Finite (1 / 2))) = Inr 50"
  by (simp add: fp_eval)

lemma lerp_float_half:
  "lerp numeric_float (Finite 0) (Finite 100) (float_to_double (Finite (1 / 2))) = Inr (Finite 50)"
  by (simp add: fp_eval)

lemma lerp_int_999: "lerp numeric_int 0 100 (float_to_double (Finite (16760439 / 16777216))) = Inr 99"
  by (simp add: fp_eval)

lemma lerp_int_999_down:
  "lerp numeric_int 0 (- 100) (float_to_double (Finite (16760439 / 16777216))) = Inr (- 99)"
  by (simp add: fp_eval)

lemma lerp_float_999:
  "lerp numeric_float (Finite 0) (Finite 100) (float_to_double (Finite (16760439 / 16777216)))
     = Inr (Finite (13094093 / 131072))"
  by (simp add: fp_eval)


section \<open>Facts about the endpoints of the interpolation\<close>

lemma int32_range:
  fixes w :: int32
  shows "- 2147483648 \<le> sint w" "sint w < 2147483648"
  using sint_ge [of w] sint_lt [of w] by simp_all

lemma word_of_int_sint [simp]: "word_of_int (sint w) = w"
  by (metis scast_eq scast_id)

lemma round_to_binary64_sint:
  fixes w :: int32
  shows "round_to binary64 (of_int (sint w)) = Finite (of_int (sint w))"
  using int32_to_double_exact [of w] by (simp add: int32_to_double_def)

lemma sint32_diff_in_range:
  fixes a b :: int32
  assumes "- (2 ^ 31) \<le> sint a - sint b" "sint a - sint b < 2 ^ 31"
  shows "sint (a - b) = sint a - sint b"
  using assms by (simp add: sint_word_ariths signed_take_bit_int_eq_self)

lemma lerp_int_zero: "lerp numeric_int s e (Finite 0) = Inr s"
  by (simp add: lerp_def numeric_int_def int32_to_double_exact round_to_binary64_sint
      int32_range)

lemma lerp_int_one:
  assumes "- (2 ^ 31) \<le> sint e - sint s" "sint e - sint s < 2 ^ 31"
  shows "lerp numeric_int s e (Finite 1) = Inr e"
proof -
  have "(of_int (sint s) :: real) + of_int (sint (e - s)) = of_int (sint e)"
    by (simp add: sint32_diff_in_range [OF assms])
  then show ?thesis
    by (simp add: lerp_def numeric_int_def int32_to_double_exact round_to_binary64_sint
        int32_range)
qed

lemma lerp_float_zero:
  assumes "round_to binary32 x = Finite x" "is_finite (fp_sub binary32 ev (Finite x))"
  shows "lerp numeric_float (Finite x) ev (Finite 0) = Inr (Finite x)"
proof -
  from assms(2) obtain d where d: "fp_sub binary32 ev (Finite x) = Finite d"
    by (cases "fp_sub binary32 ev (Finite x)") simp_all
  show ?thesis
    by (simp add: lerp_def numeric_float_def float_to_double_def d
        float_is_double [OF assms(1)] assms(1))
qed

lemma lerp_float_one:
  assumes "round_to binary32 x = Finite x" "round_to binary32 y = Finite y"
    and "round_to binary32 (y - x) = Finite (y - x)"
  shows "lerp numeric_float (Finite x) (Finite y) (Finite 1) = Inr (Finite y)"
  by (simp add: lerp_def numeric_float_def float_to_double_def fp_sub_def assms
      float_is_double [OF assms(3)] float_is_double [OF assms(2)])

lemma tick_at_zero_progress:
  assumes "get_progress a now = Finite 0"
  shows "tick N a p now = (case lerp N (start a) (end a) (Finite 0) of
                             Inl e \<Rightarrow> Inl e | Inr v \<Rightarrow> Inr (p\<lparr>value := v\<rparr>))"
  by (simp add: tick_def assms get_value_for_progress_def float_to_double_def)

lemma get_progress_prep_0: "get_progress (prep clock a) clock = Finite 0"
  by (simp add: get_progress_def prep_def)

lemma prep_endpoints [simp]: "start (prep clock a) = start a" "end (prep clock a) = end a"
  by (simp_all add: prep_def)


section \<open>The overflowing difference, evaluated\<close>

lemma quotient_wrapped:
  "double_to_float (fp_div binary64 (int64_to_double (- 9223372036854775808 - 1000))
        (int64_to_double 1000))
     = Finite 9223372474941440"
  by (simp add: fp_eval)


section \<open>Facts about the range of the interpolation\<close>

lemma progress_in_unit:
  assumes "\<not> fp_less (Finite 1) (get_progress a now)" "\<not> fp_less (get_progress a now) (Finite 0)"
  obtains r where "get_progress a now = Finite r" "0 \<le> r" "r \<le> 1"
  using assms get_progress_not_NaN [of a now] by (cases "get_progress a now") auto

lemma sint_word_of_int32:
  assumes "- 2147483648 \<le> n" "n < 2147483648"
  shows "sint (word_of_int n :: int32) = n"
  using assms by (simp add: sint_sbintrunc' signed_take_bit_int_eq_self)

lemma lerp_int_between:
  assumes "- (2 ^ 31) \<le> sint e - sint s" "sint e - sint s < 2 ^ 31" and "0 \<le> r" "r \<le> 1"
  obtains v where "lerp numeric_int s e (Finite r) = Inr v"
    "min (sint s) (sint e) \<le> sint v" "sint v \<le> max (sint s) (sint e)"
proof -
  define S :: real where "S = of_int (sint s)"
  define E :: real where "E = of_int (sint e)"
  have d: "of_int (sint (e - s)) = E - S"
    by (simp add: sint32_diff_in_range [OF assms(1,2)] S_def E_def)
  have "round_to binary64 (E - S) = Finite (E - S)"
    using round_to_binary64_sint [of "e - s"] by (simp add: d)
  then obtain x where x:
    "fp_add binary64 (Finite S) (fp_mul binary64 (Finite r) (Finite (E - S))) = Finite x"
    "min S E \<le> x" "x \<le> max S E"
    using interpolation_between [of S E r] assms(3,4) round_to_binary64_sint [of s]
      round_to_binary64_sint [of e] unfolding S_def E_def by blast
  have "of_int (min (sint s) (sint e)) \<le> x" "x \<le> of_int (max (sint s) (sint e))"
    using x(2,3) by (simp_all add: S_def E_def of_int_min of_int_max)
  then have t: "min (sint s) (sint e) \<le> trunc x" "trunc x \<le> max (sint s) (sint e)"
    by (rule trunc_between)+
  have r: "- 2147483648 \<le> trunc x" "trunc x < 2147483648"
    using t int32_range [of s] int32_range [of e] by (auto simp: min_def max_def split: if_splits)
  have "lerp numeric_int s e (Finite r)
        = double_to_int32 (fp_add binary64 (Finite S) (fp_mul binary64 (Finite r) (Finite (E - S))))"
    by (simp add: lerp_def numeric_int_def int32_to_double_exact d
        del: fp_mul.simps fp_add.simps flip: S_def E_def)
  also have "\<dots> = double_to_int32 (Finite x)" by (simp only: x(1))
  also have "\<dots> = Inr (word_of_int (trunc x))" using r by simp
  finally have "lerp numeric_int s e (Finite r) = Inr (word_of_int (trunc x))" .
  moreover have "sint (word_of_int (trunc x) :: int32) = trunc x"
    using r by (rule sint_word_of_int32)
  ultimately show thesis using t by (intro that [of "word_of_int (trunc x)"]) simp_all
qed

lemma lerp_float_between:
  assumes "round_to binary32 s = Finite s" "round_to binary32 e = Finite e"
    and "round_to binary32 (e - s) = Finite (e - s)" and "0 \<le> r" "r \<le> 1"
  obtains v where "lerp numeric_float (Finite s) (Finite e) (Finite r) = Inr (Finite v)"
    "min s e \<le> v" "v \<le> max s e"
proof -
  obtain x where x:
    "fp_add binary64 (Finite s) (fp_mul binary64 (Finite r) (Finite (e - s))) = Finite x"
    "min s e \<le> x" "x \<le> max s e"
    using interpolation_between [of s e r] assms float_is_double by blast
  have lo: "round_to binary32 (min s e) = Finite (min s e)"
    and hi: "round_to binary32 (max s e) = Finite (max s e)"
    using assms(1,2) by (simp_all add: min_def max_def)
  obtain v where v: "round_to binary32 x = Finite v" "min s e \<le> v" "v \<le> max s e"
    using round_to_sandwich [OF _ x(2,3) lo hi] by (metis binary32_fields(1) zero_less_numeral)
  have sub: "fp_sub binary32 (Finite e) (Finite s) = Finite (e - s)"
    using assms(3) by (simp add: fp_sub_def)
  have "lerp numeric_float (Finite s) (Finite e) (Finite r)
        = Inr (double_to_float
            (fp_add binary64 (Finite s) (fp_mul binary64 (Finite r) (Finite (e - s)))))"
    by (simp add: lerp_def numeric_float_def float_to_double_def sub
        del: fp_mul.simps fp_add.simps)
  also have "\<dots> = Inr (double_to_float (Finite x))" by (simp only: x(1))
  also have "\<dots> = Inr (Finite v)" by (simp add: v(1))
  finally have "lerp numeric_float (Finite s) (Finite e) (Finite r) = Inr (Finite v)" .
  with v(2,3) show thesis by (intro that [of v])
qed

lemma quotient_1000_1000:
  "double_to_float (fp_div binary64 (int64_to_double 1000) (int64_to_double 1000)) = Finite 1"
  by (simp add: fp_eval)

lemma lerp_shrinking:
  "lerp numeric_float (Finite 100) (Finite (13421773 / 134217728)) (float_to_double (Finite 1))
     = Inr (Finite (13107 / 131072))"
  by (simp add: fp_eval)

lemma shrinking_endpoints:
  "round_to binary32 100 = Finite 100"
  "round_to binary32 (13421773 / 134217728) = Finite (13421773 / 134217728)"
  "round_to binary32 (1 / 10) = Finite (13421773 / 134217728)"
  by (simp_all add: fp_eval)


section \<open>Facts about rounding errors\<close>

lemma round_mag_error: "\<bar>round_mag f m - m\<bar> \<le> ulp f m / 2"
proof -
  define u where "u = ulp f m"
  have u: "0 < u" by (simp add: u_def ulp_pos)
  have "round_mag f m - m = (of_int (round_even (m / u)) - m / u) * u"
    using u by (simp add: round_mag_def u_def field_simps)
  then have "\<bar>round_mag f m - m\<bar> = \<bar>of_int (round_even (m / u)) - m / u\<bar> * u"
    using u by (simp add: abs_mult)
  also have "\<dots> \<le> (1 / 2) * u"
    using round_even_error [of "m / u"] u by (intro mult_right_mono) simp_all
  finally show ?thesis by (simp add: u_def)
qed

lemma ulp_le:
  assumes "0 < m"
  shows "ulp f m \<le> max (2 powi (emin f - int (precision f) + 1)) (m * 2 powi (1 - int (precision f)))"
proof (cases "ilog2 m \<le> emin f")
  case True
  then have "ulp f m = 2 powi (emin f - int (precision f) + 1)" by (simp add: ulp_def max_def)
  then show ?thesis by simp
next
  case False
  then have "ulp f m = 2 powi (ilog2 m + (1 - int (precision f)))"
    by (simp add: ulp_def max_def algebra_simps)
  also have "\<dots> = 2 powi ilog2 m * 2 powi (1 - int (precision f))"
    by (rule power_int_add) simp
  also have "\<dots> \<le> m * 2 powi (1 - int (precision f))"
    using ilog2_bounds(1) [OF assms] by (intro mult_right_mono) simp_all
  finally show ?thesis by simp
qed

lemma round_to_error:
  assumes "round_to f x = Finite r"
  shows "\<bar>r - x\<bar> \<le> max (2 powi (emin f - int (precision f))) (\<bar>x\<bar> * 2 powi (- int (precision f)))"
proof (cases "x = 0")
  case True
  with assms show ?thesis by simp
next
  case False
  define m where "m = \<bar>x\<bar>"
  have m: "0 < m" using False by (simp add: m_def)
  from assms have r: "r = (if x < 0 then - round_mag f m else round_mag f m)"
    by (simp add: round_to_def Let_def m_def split: if_splits)
  have "\<bar>r - x\<bar> = \<bar>round_mag f m - m\<bar>"
    unfolding r m_def by (cases "x < 0") simp_all
  also have "\<dots> \<le> ulp f m / 2" by (rule round_mag_error)
  also have "\<dots> \<le> max (2 powi (emin f - int (precision f) + 1)) (m * 2 powi (1 - int (precision f))) / 2"
    using ulp_le [OF m, of f] by simp
  also have "\<dots> = max (2 powi (emin f - int (precision f) + 1) / 2) (m * 2 powi (1 - int (precision f)) / 2)"
    by (simp add: max_def)
  also have "(2::real) powi (emin f - int (precision f) + 1) / 2 = 2 powi (emin f - int (precision f))"
    by (simp add: power_int_add)
  also have "m * 2 powi (1 - int (precision f)) / 2 = m * 2 powi (- int (precision f))"
    using power_int_add [of "2::real" 1 "- int (precision f)"] by simp
  finally show ?thesis by (simp add: m_def)
qed

lemma round_to_binary32_error:
  assumes "round_to binary32 x = Finite r"
  shows "\<bar>r - x\<bar> \<le> 1 / 2 ^ 150 + \<bar>x\<bar> / 2 ^ 24"
proof -
  have "\<bar>r - x\<bar> \<le> max (1 / 2 ^ 150) (\<bar>x\<bar> / 2 ^ 24)"
    using round_to_error [OF assms] by (simp add: power_int_minus_divide)
  also have "\<dots> \<le> 1 / 2 ^ 150 + \<bar>x\<bar> / 2 ^ 24" by simp
  finally show ?thesis .
qed

lemma round_to_binary64_error:
  assumes "round_to binary64 x = Finite r"
  shows "\<bar>r - x\<bar> \<le> 1 / 2 ^ 1075 + \<bar>x\<bar> / 2 ^ 53"
proof -
  have "\<bar>r - x\<bar> \<le> max (1 / 2 ^ 1075) (\<bar>x\<bar> / 2 ^ 53)"
    using round_to_error [OF assms] by (simp add: power_int_minus_divide)
  also have "\<dots> \<le> 1 / 2 ^ 1075 + \<bar>x\<bar> / 2 ^ 53" by simp
  finally show ?thesis .
qed

lemma fp_add_Finite_D:
  assumes "fp_add f (Finite s) b = Finite w"
  obtains y where "b = Finite y" "round_to f (s + y) = Finite w"
  using assms by (cases b) simp_all

lemma fp_mul_one_Finite_D:
  assumes "fp_mul f (Finite 1) b = Finite w"
  obtains y where "b = Finite y" "round_to f y = Finite w"
  using assms by (cases b) simp_all

lemma double_to_float_Finite_D:
  assumes "double_to_float a = Finite v"
  obtains w where "a = Finite w" "round_to binary32 w = Finite v"
  using assms by (cases a) simp_all

lemma error_bound_weaken:
  fixes err a x B c :: real
  assumes "err \<le> a + x / c" "x \<le> B" "0 < c"
  shows "err \<le> a + B / c"
proof -
  have "x / c \<le> B / c" using assms(2,3) by (simp add: divide_right_mono)
  with assms(1) show ?thesis by linarith
qed

lemma error_sum:
  fixes M e1 e2 e3 e4 a c :: real
  assumes "e1 \<le> a + M / 2 ^ 24" "e2 \<le> c + (M + e1) / 2 ^ 53"
    "e3 \<le> c + (M + e1 + e2) / 2 ^ 53" "e4 \<le> a + (M + e1 + e2 + e3) / 2 ^ 24"
    and "0 \<le> M" "0 \<le> a" "0 \<le> c" "c \<le> a / 8"
  shows "e1 + e2 + e3 + e4 \<le> M / 2 ^ 22 + 4 * a"
  using assms by (simp add: field_simps)

lemma lerp_float_one_tolerance:
  assumes "lerp numeric_float (Finite s) (Finite e) (Finite 1) = Inr (Finite v)"
  shows "\<bar>v - e\<bar> \<le> (\<bar>s\<bar> + \<bar>e\<bar>) / 2 ^ 22 + 1 / 2 ^ 148"
proof -
  have sub: "fp_sub binary32 (Finite e) (Finite s) = round_to binary32 (e - s)"
    by (simp add: fp_sub_def)
  from assms have "double_to_float (fp_add binary64 (Finite s)
      (fp_mul binary64 (Finite 1) (round_to binary32 (e - s)))) = Finite v"
    by (simp add: lerp_def numeric_float_def float_to_double_def sub
        del: fp_mul.simps fp_add.simps)
  then obtain w where w:
    "fp_add binary64 (Finite s) (fp_mul binary64 (Finite 1) (round_to binary32 (e - s))) = Finite w"
    "round_to binary32 w = Finite v"
    by (rule double_to_float_Finite_D)
  from w(1) obtain d' where d':
    "fp_mul binary64 (Finite 1) (round_to binary32 (e - s)) = Finite d'"
    "round_to binary64 (s + d') = Finite w"
    by (rule fp_add_Finite_D)
  from d'(1) obtain d where d: "round_to binary32 (e - s) = Finite d" "round_to binary64 d = Finite d'"
    by (rule fp_mul_one_Finite_D)
  define M where "M = \<bar>s\<bar> + \<bar>e\<bar>"
  define e1 where "e1 = \<bar>d - (e - s)\<bar>"
  define e2 where "e2 = \<bar>d' - d\<bar>"
  define e3 where "e3 = \<bar>w - (s + d')\<bar>"
  define e4 where "e4 = \<bar>v - w\<bar>"
  have M: "0 \<le> M" "\<bar>e\<bar> \<le> M" "\<bar>e - s\<bar> \<le> M" by (simp_all add: M_def)
  have n1: "\<bar>d\<bar> \<le> M + e1" using M(3) unfolding e1_def by linarith
  have n2: "\<bar>s + d'\<bar> \<le> M + e1 + e2" using M(2) unfolding e1_def e2_def by linarith
  have n3: "\<bar>w\<bar> \<le> M + e1 + e2 + e3" using n2 unfolding e3_def by linarith
  have b1: "e1 \<le> 1 / 2 ^ 150 + M / 2 ^ 24"
    unfolding e1_def by (rule error_bound_weaken [OF round_to_binary32_error [OF d(1)] M(3)]) simp
  have b2: "e2 \<le> 1 / 2 ^ 1075 + (M + e1) / 2 ^ 53"
    unfolding e2_def by (rule error_bound_weaken [OF round_to_binary64_error [OF d(2)] n1]) simp
  have b3: "e3 \<le> 1 / 2 ^ 1075 + (M + e1 + e2) / 2 ^ 53"
    unfolding e3_def by (rule error_bound_weaken [OF round_to_binary64_error [OF d'(2)] n2]) simp
  have b4: "e4 \<le> 1 / 2 ^ 150 + (M + e1 + e2 + e3) / 2 ^ 24"
    unfolding e4_def by (rule error_bound_weaken [OF round_to_binary32_error [OF w(2)] n3]) simp
  have "\<bar>v - e\<bar> \<le> e1 + e2 + e3 + e4"
    unfolding e1_def e2_def e3_def e4_def by linarith
  also have "\<dots> \<le> M / 2 ^ 22 + 4 * (1 / 2 ^ 150)"
    using b1 b2 b3 b4 M(1) by (rule error_sum) simp_all
  also have "\<dots> = M / 2 ^ 22 + 1 / 2 ^ 148" by simp
  finally show ?thesis by (simp add: M_def)
qed

lemma lerp_int_D:
  assumes "lerp numeric_int s e prog = Inr v"
  obtains x where
    "fp_add binary64 (int32_to_double s) (fp_mul binary64 prog (int32_to_double (e - s))) = Finite x"
    "sint v = trunc x"
proof -
  define I where "I = fp_add binary64 (int32_to_double s) (fp_mul binary64 prog (int32_to_double (e - s)))"
  from assms have c: "double_to_int32 I = Inr v"
    by (simp add: lerp_def numeric_int_def I_def)
  then obtain x where x: "I = Finite x" by (cases I) simp_all
  with c have r: "- (2 ^ 31) \<le> trunc x" "trunc x < 2 ^ 31" and v: "v = word_of_int (trunc x)"
    by (simp_all split: if_splits)
  from r have "sint v = trunc x" unfolding v by (intro sint_word_of_int32) simp_all
  with x show thesis by (intro that [of x]) (simp_all add: I_def)
qed


section \<open>Claims about observable properties\<close>

text \<open>
  C1, as the code has it. After an assignment the stored value is the assigned one, and
  every observer was called with the assigned value as its second argument. The first
  argument of the \<open>k\<close>-th call is the backing value as the observers before it left it,
  starting from the value the property had before the assignment: the assignment itself
  writes the field only after the loop. When no registered observer writes the backing
  value, every observer is called with the value the property had before the assignment.
\<close>

theorem assign_notify_then_commit:
  "value (fst (snd (assign new_v (p, h)))) = new_v
   \<and> map new_value (fst (assign new_v (p, h))) = replicate (length (observers p)) new_v
   \<and> map old_value (fst (assign new_v (p, h)))
       = map (\<lambda>k. fst (foldl (\<lambda>t ob. ob (fst t) new_v t) (value p, h) (take k (observers p))))
           [0 ..< length (observers p)]
   \<and> ((\<forall>ob \<in> set (observers p). keeps_value ob) \<longrightarrow>
        map old_value (fst (assign new_v (p, h))) = replicate (length (observers p)) (value p))"
proof -
  have 1: "value (fst (snd (assign new_v (p, h)))) = new_v"
    by (simp add: assign_def Let_def)
  have 2: "map new_value (fst (assign new_v (p, h))) = replicate (length (observers p)) new_v"
    by (simp add: assign_def Let_def notify_map_new_value)
  have 3: "map old_value (fst (assign new_v (p, h)))
       = map (\<lambda>k. fst (foldl (\<lambda>t ob. ob (fst t) new_v t) (value p, h) (take k (observers p))))
           [0 ..< length (observers p)]"
    by (simp add: assign_def Let_def notify_map_old_value)
  have 4: "map old_value (fst (assign new_v (p, h))) = replicate (length (observers p)) (value p)"
    if "\<forall>ob \<in> set (observers p). keeps_value ob"
    using notify_map_old_value_kept [OF that, of 0 new_v "(value p, h)"]
    by (simp add: assign_def Let_def)
  from 1 2 3 4 show ?thesis by blast
qed

text \<open>Both observers of \<open>idle_property\<close> leave the value alone; both are called with (0, 7).\<close>

theorem assign_notify_then_commit_witness:
  "keeps_value idle_observer
   \<and> map old_value (fst (assign 7 (idle_property, ()))) = [0, 0]
   \<and> map new_value (fst (assign 7 (idle_property, ()))) = [7, 7]
   \<and> value (fst (snd (assign 7 (idle_property, ())))) = 7"
  using assign_notify_then_commit [of 7 idle_property "()"] keeps_value_idle
  by (simp add: idle_property_def idle_observer_def numeral_2_eq_2)

text \<open>
  C1 as stated fails: the property holds 0 and is assigned 100; the first observer writes
  the backing value, and the second observer is called with 100 as the old value, not
  with the 0 the property held before the assignment.
\<close>

theorem assign_old_value_counterexample:
  "old_value (fst (assign 100 (animated_property, ())) ! 1) = 100
   \<and> old_value (fst (assign 100 (animated_property, ())) ! 1) \<noteq> value animated_property"
  by (simp add: assign_def animated_property_def animating_observer_def idle_observer_def Let_def)

text \<open>
  C9. An assignment calls the observers at positions 0, 1, ... of the vector, in that
  order and each once; the memory they leave is the one obtained by running them in that
  order; \<open>add_observer\<close> appends, so the position is the registration order; and the
  assignment leaves the vector as it was.
\<close>

theorem assign_observer_order:
  "map callee (fst (assign new_v (p, h))) = [0 ..< length (observers p)]
   \<and> snd (snd (assign new_v (p, h)))
       = snd (foldl (\<lambda>t ob. ob (fst t) new_v t) (value p, h) (observers p))
   \<and> observers (fst (snd (assign new_v (p, h)))) = observers p
   \<and> observers (add_observer ob p) = observers p @ [ob]"
  using notify_callees [of "observers p" 0 new_v "(value p, h)"]
  by (simp add: assign_def Let_def notify_memory add_observer_def)


section \<open>Claims about animations\<close>

text \<open>
  C6. At \<open>now = start_time\<close> the progress is exactly 0, whatever the duration, zero
  included: the difference is zero and \<open>get_progress\<close> returns before it divides.
\<close>
theorem progress_at_start_time:
  "get_progress a (start_time a) = Finite 0
   \<and> get_progress (prep clock a) clock = Finite 0
   \<and> get_progress (prep clock (a\<lparr>duration := 0\<rparr>)) clock = Finite 0"
  by (simp add: get_progress_def prep_def)

text \<open>
  C3. When the progress is above 1, \<open>tick\<close> writes exactly \<open>end\<close>; when it is below
  0, exactly \<open>start\<close>. In the scenario (0 to 100 in 1000 ms), 1200 ms after the start
  \<open>tick\<close> writes exactly 100 and \<open>finished\<close> holds, for \<^verbatim>\<open>int\<close> and for \<^verbatim>\<open>float\<close>.
\<close>
theorem tick_clamps:
  "(fp_less (Finite 1) (get_progress a now) \<longrightarrow> tick N a p now = Inr (p\<lparr>value := end a\<rparr>))
   \<and> (fp_less (get_progress a now) (Finite 0) \<longrightarrow> tick N a p now = Inr (p\<lparr>value := start a\<rparr>))
   \<and> tick numeric_int (prep clock scenario_int) q (clock + 1200) = Inr (q\<lparr>value := 100\<rparr>)
   \<and> tick numeric_float (prep clock scenario_float) w (clock + 1200) = Inr (w\<lparr>value := Finite 100\<rparr>)
   \<and> finished (prep clock scenario_int) (clock + 1200)
   \<and> finished (prep clock scenario_float) (clock + 1200)"
proof -
  have 1: "tick N a p now = Inr (p\<lparr>value := end a\<rparr>)" if "fp_less (Finite 1) (get_progress a now)"
    using that by (simp add: tick_def)
  have 2: "tick N a p now = Inr (p\<lparr>value := start a\<rparr>)" if "fp_less (get_progress a now) (Finite 0)"
  proof -
    from that have "\<not> fp_less (Finite 1) (get_progress a now)"
      by (cases "get_progress a now") simp_all
    with that show ?thesis by (simp add: tick_def)
  qed
  have i: "get_progress (prep clock scenario_int) (clock + 1200) = Finite (5033165 / 4194304)"
    by (simp add: get_progress_prep scenario_int_def quotient_1200_1000)
  have f: "get_progress (prep clock scenario_float) (clock + 1200) = Finite (5033165 / 4194304)"
    by (simp add: get_progress_prep scenario_float_def quotient_1200_1000)
  have 3: "tick numeric_int (prep clock scenario_int) q (clock + 1200) = Inr (q\<lparr>value := 100\<rparr>)"
    by (simp add: tick_def i) (simp add: prep_def scenario_int_def)
  have 4: "tick numeric_float (prep clock scenario_float) w (clock + 1200) = Inr (w\<lparr>value := Finite 100\<rparr>)"
    by (simp add: tick_def f) (simp add: prep_def scenario_float_def)
  have 5: "finished (prep clock scenario_int) (clock + 1200)"
    "finished (prep clock scenario_float) (clock + 1200)"
    by (simp_all add: finished_def i f)
  from 1 2 3 4 5 show ?thesis by blast
qed

text \<open>The scenario 1200 ms after the start, and 1000 ms before it.\<close>

theorem tick_clamps_witness:
  "fp_less (Finite 1) (get_progress (prep 5000 scenario_int) 6200)
   \<and> map_sum id value (tick numeric_int (prep 5000 scenario_int) red 6200) = Inr 100
   \<and> fp_less (get_progress (prep 5000 scenario_int) 4000) (Finite 0)
   \<and> map_sum id value (tick numeric_int (prep 5000 scenario_int) red 4000) = Inr 0"
proof -
  have a: "fp_less (Finite 1) (get_progress (prep 5000 scenario_int) 6200)"
    using get_progress_prep [of 5000 scenario_int 1200]
    by (simp add: scenario_int_def quotient_1200_1000)
  have b: "fp_less (get_progress (prep 5000 scenario_int) 4000) (Finite 0)"
    using get_progress_prep [of 5000 scenario_int "- 1000"]
    by (simp add: scenario_int_def quotient_minus_1000_1000)
  have "tick numeric_int (prep 5000 scenario_int) red 6200
          = Inr (red\<lparr>value := end (prep 5000 scenario_int)\<rparr>)"
    by (rule tick_clamps [THEN conjunct1, rule_format, OF a])
  then have c: "map_sum id value (tick numeric_int (prep 5000 scenario_int) red 6200) = Inr 100"
    by (simp add: prep_def scenario_int_def)
  have "tick numeric_int (prep 5000 scenario_int) red 4000
          = Inr (red\<lparr>value := start (prep 5000 scenario_int)\<rparr>)"
    by (rule tick_clamps [THEN conjunct2, THEN conjunct1, rule_format, OF b])
  then have d: "map_sum id value (tick numeric_int (prep 5000 scenario_int) red 4000) = Inr 0"
    by (simp add: prep_def scenario_int_def)
  from a b c d show ?thesis by simp
qed

text \<open>
  C4. A \<open>tick\<close> that returns has invoked no observer and has left the memory outside
  the property as it was; in the property it has left every field but \<open>value\<close> as it
  was, the observer vector included. Assigning the same value through \<^verbatim>\<open>operator=\<close>
  would have invoked every registered observer.
\<close>

theorem tick_writes_value_only:
  "tick_step N a (p, h) now = Inr (calls, (p', h')) \<Longrightarrow>
     calls = [] \<and> h' = h \<and> observers p' = observers p \<and> p' = p\<lparr>value := value p'\<rparr>
     \<and> tick N a p now = Inr p'
     \<and> map callee (fst (assign (value p') (p, h))) = [0 ..< length (observers p)]"
proof -
  assume t: "tick_step N a (p, h) now = Inr (calls, (p', h'))"
  then have "\<exists>v. write_value v (p, h) = (calls, (p', h')) \<and> tick N a p now = Inr (p\<lparr>value := v\<rparr>)"
    by (fastforce simp: tick_step_def tick_def Let_def split: if_splits sum.splits)
  then obtain v where v: "write_value v (p, h) = (calls, (p', h'))" "tick N a p now = Inr (p\<lparr>value := v\<rparr>)"
    by blast
  from v(1) have c: "calls = []" "h' = h" "p' = p\<lparr>value := v\<rparr>"
    by (simp_all add: write_value_def)
  have o: "map callee (fst (assign (value p') (p, h))) = [0 ..< length (observers p)]"
    using notify_callees [of "observers p" 0 "value p'" "(value p, h)"]
    by (simp add: assign_def Let_def)
  from c v(2) o show ?thesis by simp
qed

text \<open>
  The scenario 500 ms after the start, on the property that counts: \<open>tick\<close> writes 50,
  calls nobody and the count stays 0; assigning 50 calls the observer with (7, 50) and
  the count becomes 1.
\<close>

theorem tick_writes_value_only_witness:
  "map_sum id fst (tick_step numeric_int (prep 5000 scenario_int) (counted, 0) 5500) = Inr []
   \<and> map_sum id (\<lambda>r. snd (snd r)) (tick_step numeric_int (prep 5000 scenario_int) (counted, 0) 5500)
       = Inr 0
   \<and> map_sum id (\<lambda>r. value (fst (snd r)))
         (tick_step numeric_int (prep 5000 scenario_int) (counted, 0) 5500) = Inr 50
   \<and> map_sum id (\<lambda>r. length (observers (fst (snd r))))
         (tick_step numeric_int (prep 5000 scenario_int) (counted, 0) 5500) = Inr 1
   \<and> fst (assign 50 (counted, 0)) = [Call 0 7 50]
   \<and> snd (snd (assign 50 (counted, 0))) = 1"
proof -
  have g: "get_progress (prep 5000 scenario_int) 5500 = Finite (1 / 2)"
    using get_progress_prep [of 5000 scenario_int 500] by (simp add: scenario_int_def quotient_500_1000)
  have l: "get_value_for_progress numeric_int (prep 5000 scenario_int) (Finite (1 / 2)) = Inr 50"
    by (simp add: get_value_for_progress_def scenario_int_def lerp_int_half)
  have t: "tick_step numeric_int (prep 5000 scenario_int) (counted, 0) 5500
           = Inr ([], (counted\<lparr>value := 50\<rparr>, 0))"
    by (simp add: tick_step_def g l write_value_def)
  have a: "fst (assign 50 (counted, 0)) = [Call 0 7 50]" "snd (snd (assign 50 (counted, 0))) = 1"
    by (simp_all add: assign_def counted_def counting_observer_def Let_def)
  from tick_writes_value_only [OF t] a show ?thesis unfolding t by (simp add: counted_def)
qed

text \<open>
  C2, as the code has it. A \<open>tick\<close> at the very timestamp \<open>prep\<close> captured computes
  the progress 0 without dividing, whatever the duration (zero included), and returns: no
  arithmetic fault. It then interpolates at progress 0 and leaves the property at
  \<open>start\<close>, not at \<open>end\<close>: always for \<^verbatim>\<open>int\<close>, and for \<^verbatim>\<open>float\<close> when \<open>start\<close> is a
  finite number and \<open>end - start\<close> does not overflow.
\<close>
theorem tick_at_start_time:
  "tick numeric_int (prep clock a) p clock = Inr (p\<lparr>value := start a\<rparr>)
   \<and> (finite_float (start b) \<and> is_finite (fp_sub binary32 (end b) (start b)) \<longrightarrow>
        tick numeric_float (prep clock b) q clock = Inr (q\<lparr>value := start b\<rparr>))"
proof -
  have 1: "tick numeric_int (prep clock a) p clock = Inr (p\<lparr>value := start a\<rparr>)"
    by (simp add: tick_at_zero_progress [OF get_progress_prep_0] lerp_int_zero)
  have 2: "tick numeric_float (prep clock b) q clock = Inr (q\<lparr>value := start b\<rparr>)"
    if "finite_float (start b)" "is_finite (fp_sub binary32 (end b) (start b))"
  proof -
    from that(1) obtain x where x: "start b = Finite x" "round_to binary32 x = Finite x"
      by (cases "start b") simp_all
    from that(2) have "lerp numeric_float (Finite x) (end b) (Finite 0) = Inr (Finite x)"
      unfolding x(1) by (rule lerp_float_zero [OF x(2)])
    then show ?thesis
      by (simp add: tick_at_zero_progress [OF get_progress_prep_0] x(1))
  qed
  from 1 2 show ?thesis by blast
qed

text \<open>The scenario with duration 0, ticked at the timestamp of \<open>prep\<close>.\<close>

theorem tick_at_start_time_witness:
  "finite_float (start (scenario_float\<lparr>duration := 0\<rparr>))
   \<and> is_finite (fp_sub binary32 (end (scenario_float\<lparr>duration := 0\<rparr>))
                  (start (scenario_float\<lparr>duration := 0\<rparr>)))
   \<and> map_sum id value (tick numeric_float (prep 5000 (scenario_float\<lparr>duration := 0\<rparr>)) width 5000)
       = Inr (Finite 0)
   \<and> map_sum id value (tick numeric_int (prep 5000 (scenario_int\<lparr>duration := 0\<rparr>)) red 5000)
       = Inr 0"
proof -
  have h: "finite_float (start (scenario_float\<lparr>duration := 0\<rparr>))"
    "is_finite (fp_sub binary32 (end (scenario_float\<lparr>duration := 0\<rparr>))
                  (start (scenario_float\<lparr>duration := 0\<rparr>)))"
    by (simp_all add: scenario_float_def fp_eval)
  note t = tick_at_start_time [of 5000 "scenario_int\<lparr>duration := 0\<rparr>" red
      "scenario_float\<lparr>duration := 0\<rparr>" width]
  from t have "tick numeric_int (prep 5000 (scenario_int\<lparr>duration := 0\<rparr>)) red 5000
      = Inr (red\<lparr>value := start (scenario_int\<lparr>duration := 0\<rparr>)\<rparr>)"
    by (rule conjunct1)
  then have i: "map_sum id value (tick numeric_int (prep 5000 (scenario_int\<lparr>duration := 0\<rparr>)) red 5000)
       = Inr 0"
    by (simp add: scenario_int_def)
  from t h have "tick numeric_float (prep 5000 (scenario_float\<lparr>duration := 0\<rparr>)) width 5000
      = Inr (width\<lparr>value := start (scenario_float\<lparr>duration := 0\<rparr>)\<rparr>)"
    by blast
  then have f: "map_sum id value (tick numeric_float (prep 5000 (scenario_float\<lparr>duration := 0\<rparr>)) width 5000)
       = Inr (Finite 0)"
    by (simp add: scenario_float_def)
  from h i f show ?thesis by simp
qed

text \<open>
  C2 as stated fails: with duration 0, from 0 to 100, the \<open>tick\<close> right after \<open>prep\<close>
  leaves the property at 0, and \<open>end\<close> is 100.
\<close>

theorem tick_duration_zero_counterexample:
  "map_sum id value (tick numeric_int (prep 5000 (scenario_int\<lparr>duration := 0\<rparr>)) red 5000) = Inr 0
   \<and> end (prep 5000 (scenario_int\<lparr>duration := 0\<rparr>)) = 100
   \<and> map_sum id value (tick numeric_int (prep 5000 (scenario_int\<lparr>duration := 0\<rparr>)) red 5000)
       \<noteq> Inr (end (prep 5000 (scenario_int\<lparr>duration := 0\<rparr>)))"
  by (simp add: tick_at_zero_progress [OF get_progress_prep_0] lerp_int_zero scenario_int_def)

text \<open>
  C5, as the code has it. For a positive duration the progress does not decrease with the
  timestamp, as long as the subtraction \<^verbatim>\<open>now - start_time\<close> stays within \<^verbatim>\<open>int64_t\<close>
  for both timestamps.
\<close>

theorem get_progress_monotone:
  assumes "0 < sint (duration a)" and "sint t1 \<le> sint t2"
    and "- (2 ^ 63) \<le> sint t1 - sint (start_time a)"
    and "sint t2 - sint (start_time a) < 2 ^ 63"
  shows "fp_le (get_progress a t1) (get_progress a t2)"
proof -
  have 1: "sint (t1 - start_time a) = sint t1 - sint (start_time a)"
    by (rule sint_diff_in_range) (use assms in simp_all)
  have 2: "sint (t2 - start_time a) = sint t2 - sint (start_time a)"
    by (rule sint_diff_in_range) (use assms in simp_all)
  show ?thesis
    by (rule get_progress_mono_aux) (use assms 1 2 in simp_all)
qed

text \<open>The scenario, prepared at 5000, at 500 ms and at 1200 ms after the start.\<close>

theorem get_progress_monotone_witness:
  "0 < sint (duration (prep 5000 scenario_int))
   \<and> sint (5500 :: int64) \<le> sint (6200 :: int64)
   \<and> - (2 ^ 63) \<le> sint (5500 :: int64) - sint (start_time (prep 5000 scenario_int))
   \<and> sint (6200 :: int64) - sint (start_time (prep 5000 scenario_int)) < 2 ^ 63
   \<and> fp_le (get_progress (prep 5000 scenario_int) 5500) (get_progress (prep 5000 scenario_int) 6200)"
proof -
  have h: "0 < sint (duration (prep 5000 scenario_int))"
    "sint (5500 :: int64) \<le> sint (6200 :: int64)"
    "- (2 ^ 63) \<le> sint (5500 :: int64) - sint (start_time (prep 5000 scenario_int))"
    "sint (6200 :: int64) - sint (start_time (prep 5000 scenario_int)) < 2 ^ 63"
    by (simp_all add: prep_def scenario_int_def)
  from h get_progress_monotone [OF h] show ?thesis by simp
qed

text \<open>
  C5 as stated fails where the subtraction overflows. The scenario is prepared at 1000;
  the earlier timestamp is the least \<^verbatim>\<open>int64_t\<close>, the later one is 0. The difference
  \<open>- 2 ^ 63 - 1000\<close> wraps around to \<open>2 ^ 63 - 1000\<close>, so the earlier timestamp has the
  progress 9223372474941440 and the later one the progress \<open>- 1\<close>.
\<close>

theorem get_progress_monotone_counterexample:
  "sint (- 9223372036854775808 :: int64) \<le> sint (0 :: int64)
   \<and> 0 < sint (duration (prep 1000 scenario_int))
   \<and> get_progress (prep 1000 scenario_int) (- 9223372036854775808) = Finite 9223372474941440
   \<and> get_progress (prep 1000 scenario_int) 0 = Finite (- 1)
   \<and> \<not> fp_le (get_progress (prep 1000 scenario_int) (- 9223372036854775808))
            (get_progress (prep 1000 scenario_int) 0)"
proof -
  have 1: "get_progress (prep 1000 scenario_int) (- 9223372036854775808) = Finite 9223372474941440"
    using quotient_wrapped by (simp add: get_progress_def prep_def scenario_int_def)
  have 2: "get_progress (prep 1000 scenario_int) 0 = Finite (- 1)"
    using get_progress_prep [of 1000 scenario_int "- 1000"]
    by (simp add: scenario_int_def quotient_minus_1000_1000)
  have 3: "0 < sint (duration (prep 1000 scenario_int))"
    by (simp add: prep_def scenario_int_def)
  show ?thesis unfolding 1 2 using 3 by simp
qed

text \<open>
  C10, as the code has it. After a \<open>tick\<close> the value of the property lies between
  \<open>start\<close> and \<open>end\<close>, for every duration and timestamp, when \<open>T\<close> is \<^verbatim>\<open>int\<close> and
  \<open>end - start\<close> does not overflow, and when \<open>T\<close> is \<^verbatim>\<open>float\<close>, the endpoints are finite
  and the \<^verbatim>\<open>float\<close> subtraction \<open>end - start\<close> is exact.
\<close>

theorem tick_value_between:
  "(- (2 ^ 31) \<le> sint (end a) - sint (start a) \<and> sint (end a) - sint (start a) < 2 ^ 31 \<longrightarrow>
      (\<exists>v. tick numeric_int a p now = Inr (p\<lparr>value := v\<rparr>)
           \<and> min (sint (start a)) (sint (end a)) \<le> sint v
           \<and> sint v \<le> max (sint (start a)) (sint (end a))))
   \<and> (start b = Finite s \<and> end b = Finite e \<and> round_to binary32 s = Finite s
        \<and> round_to binary32 e = Finite e \<and> round_to binary32 (e - s) = Finite (e - s) \<longrightarrow>
      (\<exists>v. tick numeric_float b q now = Inr (q\<lparr>value := Finite v\<rparr>)
           \<and> min s e \<le> v \<and> v \<le> max s e))"
proof -
  have 1: "\<exists>v. tick numeric_int a p now = Inr (p\<lparr>value := v\<rparr>)
           \<and> min (sint (start a)) (sint (end a)) \<le> sint v
           \<and> sint v \<le> max (sint (start a)) (sint (end a))"
    if h: "- (2 ^ 31) \<le> sint (end a) - sint (start a)" "sint (end a) - sint (start a) < 2 ^ 31"
  proof -
    consider "fp_less (Finite 1) (get_progress a now)"
      | "\<not> fp_less (Finite 1) (get_progress a now)" "fp_less (get_progress a now) (Finite 0)"
      | "\<not> fp_less (Finite 1) (get_progress a now)" "\<not> fp_less (get_progress a now) (Finite 0)"
      by blast
    then show ?thesis
    proof cases
      case 1
      then have "tick numeric_int a p now = Inr (p\<lparr>value := end a\<rparr>)" by (simp add: tick_def)
      then show ?thesis by (intro exI [of _ "end a"]) simp
    next
      case 2
      then have "tick numeric_int a p now = Inr (p\<lparr>value := start a\<rparr>)" by (simp add: tick_def)
      then show ?thesis by (intro exI [of _ "start a"]) simp
    next
      case 3
      then obtain r where r: "get_progress a now = Finite r" "0 \<le> r" "r \<le> 1"
        by (rule progress_in_unit)
      obtain v where v: "lerp numeric_int (start a) (end a) (Finite r) = Inr v"
        "min (sint (start a)) (sint (end a)) \<le> sint v" "sint v \<le> max (sint (start a)) (sint (end a))"
        using h r(2,3) by (rule lerp_int_between)
      have "tick numeric_int a p now = Inr (p\<lparr>value := v\<rparr>)"
        using 3 by (simp add: tick_def r(1) get_value_for_progress_def float_to_double_def v(1))
      with v(2,3) show ?thesis by blast
    qed
  qed
  have 2: "\<exists>v. tick numeric_float b q now = Inr (q\<lparr>value := Finite v\<rparr>) \<and> min s e \<le> v \<and> v \<le> max s e"
    if h: "start b = Finite s" "end b = Finite e" "round_to binary32 s = Finite s"
      "round_to binary32 e = Finite e" "round_to binary32 (e - s) = Finite (e - s)"
  proof -
    consider "fp_less (Finite 1) (get_progress b now)"
      | "\<not> fp_less (Finite 1) (get_progress b now)" "fp_less (get_progress b now) (Finite 0)"
      | "\<not> fp_less (Finite 1) (get_progress b now)" "\<not> fp_less (get_progress b now) (Finite 0)"
      by blast
    then show ?thesis
    proof cases
      case 1
      then have "tick numeric_float b q now = Inr (q\<lparr>value := Finite e\<rparr>)"
        by (simp add: tick_def h(2))
      then show ?thesis by (intro exI [of _ e]) simp
    next
      case 2
      then have "tick numeric_float b q now = Inr (q\<lparr>value := Finite s\<rparr>)"
        by (simp add: tick_def h(1))
      then show ?thesis by (intro exI [of _ s]) simp
    next
      case 3
      then obtain r where r: "get_progress b now = Finite r" "0 \<le> r" "r \<le> 1"
        by (rule progress_in_unit)
      obtain v where v: "lerp numeric_float (Finite s) (Finite e) (Finite r) = Inr (Finite v)"
        "min s e \<le> v" "v \<le> max s e"
        using h(3,4,5) r(2,3) by (rule lerp_float_between)
      have "tick numeric_float b q now = Inr (q\<lparr>value := Finite v\<rparr>)"
        using 3 by (simp add: tick_def r(1) get_value_for_progress_def float_to_double_def h(1,2) v(1))
      with v(2,3) show ?thesis by blast
    qed
  qed
  from 1 2 show ?thesis by blast
qed

text \<open>The scenario 500 ms after the start, as \<^verbatim>\<open>int\<close> and as \<^verbatim>\<open>float\<close>.\<close>

theorem tick_value_between_witness:
  "- (2 ^ 31) \<le> sint (end (prep 5000 scenario_int)) - sint (start (prep 5000 scenario_int))
   \<and> sint (end (prep 5000 scenario_int)) - sint (start (prep 5000 scenario_int)) < 2 ^ 31
   \<and> (\<exists>v. tick numeric_int (prep 5000 scenario_int) red 5500 = Inr (red\<lparr>value := v\<rparr>)
          \<and> 0 \<le> sint v \<and> sint v \<le> 100)
   \<and> start (prep 5000 scenario_float) = Finite 0 \<and> end (prep 5000 scenario_float) = Finite 100
   \<and> round_to binary32 0 = Finite 0 \<and> round_to binary32 100 = Finite 100
   \<and> round_to binary32 (100 - 0) = Finite (100 - 0)
   \<and> (\<exists>v. tick numeric_float (prep 5000 scenario_float) width 5500 = Inr (width\<lparr>value := Finite v\<rparr>)
          \<and> 0 \<le> v \<and> v \<le> 100)"
proof -
  have i: "- (2 ^ 31) \<le> sint (end (prep 5000 scenario_int)) - sint (start (prep 5000 scenario_int))
     \<and> sint (end (prep 5000 scenario_int)) - sint (start (prep 5000 scenario_int)) < 2 ^ 31"
    by (simp add: scenario_int_def)
  have f: "start (prep 5000 scenario_float) = Finite 0 \<and> end (prep 5000 scenario_float) = Finite 100
     \<and> round_to binary32 0 = Finite 0 \<and> round_to binary32 100 = Finite 100
     \<and> round_to binary32 (100 - 0) = Finite (100 - 0)"
    by (simp add: scenario_float_def shrinking_endpoints)
  note t = tick_value_between [of "prep 5000 scenario_int" red 5500 "prep 5000 scenario_float"
      0 100 width]
  from t i have "\<exists>v. tick numeric_int (prep 5000 scenario_int) red 5500 = Inr (red\<lparr>value := v\<rparr>)
          \<and> min (sint (start (prep 5000 scenario_int))) (sint (end (prep 5000 scenario_int))) \<le> sint v
          \<and> sint v \<le> max (sint (start (prep 5000 scenario_int))) (sint (end (prep 5000 scenario_int)))"
    by blast
  then have 1: "\<exists>v. tick numeric_int (prep 5000 scenario_int) red 5500 = Inr (red\<lparr>value := v\<rparr>)
          \<and> 0 \<le> sint v \<and> sint v \<le> 100"
    by (simp add: scenario_int_def)
  from t f have "\<exists>v. tick numeric_float (prep 5000 scenario_float) width 5500
            = Inr (width\<lparr>value := Finite v\<rparr>) \<and> min 0 100 \<le> v \<and> v \<le> max 0 100"
    by blast
  then have 2: "\<exists>v. tick numeric_float (prep 5000 scenario_float) width 5500
            = Inr (width\<lparr>value := Finite v\<rparr>) \<and> 0 \<le> v \<and> v \<le> 100"
    by simp
  from i f 1 2 show ?thesis by blast
qed

text \<open>
  C10 as stated fails for \<^verbatim>\<open>float\<close>. The animation runs from 100 to the \<^verbatim>\<open>float\<close> nearest
  0.1 in 1000 ms. At 1000 ms the progress is exactly 1, which is not above 1, so \<open>tick\<close>
  interpolates: the \<^verbatim>\<open>float\<close> difference \<open>end - start\<close> is rounded, and the value written,
  13107 / 131072, is below both \<open>end\<close> and \<open>start\<close>.
\<close>

theorem tick_value_between_counterexample:
  "0 < sint (duration (prep 5000 shrinking_float))
   \<and> finite_float (start (prep 5000 shrinking_float))
   \<and> finite_float (end (prep 5000 shrinking_float))
   \<and> map_sum id value (tick numeric_float (prep 5000 shrinking_float) width 6000)
       = Inr (Finite (13107 / 131072))
   \<and> fp_less (Finite (13107 / 131072)) (end (prep 5000 shrinking_float))
   \<and> fp_less (Finite (13107 / 131072)) (start (prep 5000 shrinking_float))"
proof -
  have g: "get_progress (prep 5000 shrinking_float) 6000 = Finite 1"
    using get_progress_prep [of 5000 shrinking_float 1000]
    by (simp add: shrinking_float_def quotient_1000_1000)
  have t: "map_sum id value (tick numeric_float (prep 5000 shrinking_float) width 6000)
       = Inr (Finite (13107 / 131072))"
    by (simp add: tick_def g get_value_for_progress_def)
       (simp add: shrinking_float_def lerp_shrinking)
  show ?thesis
    unfolding t by (simp add: prep_def shrinking_float_def shrinking_endpoints)
qed

text \<open>
  C7, as the code has it. For \<^verbatim>\<open>int\<close> the interpolation at progress 0 is exactly \<open>start\<close>,
  and at progress 1 exactly \<open>end\<close> when \<open>end - start\<close> does not overflow. For \<^verbatim>\<open>float\<close>
  the interpolation at 0 is exactly \<open>start\<close> when \<open>start\<close> is a finite number and
  \<open>end - start\<close> does not overflow; at 1 it is exactly \<open>end\<close> when the \<^verbatim>\<open>float\<close> subtraction
  \<open>end - start\<close> is exact, and whenever it is finite it differs from \<open>end\<close> by at most
  \<open>(\<bar>start\<bar> + \<bar>end\<bar>) / 2 ^ 22 + 1 / 2 ^ 148\<close>.
\<close>

theorem interpolation_endpoints:
  "get_value_for_progress numeric_int a (Finite 0) = Inr (start a)
   \<and> (- (2 ^ 31) \<le> sint (end a) - sint (start a) \<and> sint (end a) - sint (start a) < 2 ^ 31 \<longrightarrow>
        get_value_for_progress numeric_int a (Finite 1) = Inr (end a))
   \<and> (finite_float (start b) \<and> is_finite (fp_sub binary32 (end b) (start b)) \<longrightarrow>
        get_value_for_progress numeric_float b (Finite 0) = Inr (start b))
   \<and> (start b = Finite s \<and> end b = Finite e \<and> round_to binary32 s = Finite s
        \<and> round_to binary32 e = Finite e \<and> round_to binary32 (e - s) = Finite (e - s) \<longrightarrow>
        get_value_for_progress numeric_float b (Finite 1) = Inr (end b))
   \<and> (start c = Finite s' \<and> end c = Finite e'
        \<and> get_value_for_progress numeric_float c (Finite 1) = Inr (Finite v) \<longrightarrow>
        \<bar>v - e'\<bar> \<le> (\<bar>s'\<bar> + \<bar>e'\<bar>) / 2 ^ 22 + 1 / 2 ^ 148)"
proof -
  have 1: "get_value_for_progress numeric_int a (Finite 0) = Inr (start a)"
    by (simp add: get_value_for_progress_def float_to_double_def lerp_int_zero)
  have 2: "get_value_for_progress numeric_int a (Finite 1) = Inr (end a)"
    if "- (2 ^ 31) \<le> sint (end a) - sint (start a)" "sint (end a) - sint (start a) < 2 ^ 31"
    using that by (simp add: get_value_for_progress_def float_to_double_def lerp_int_one)
  have 3: "get_value_for_progress numeric_float b (Finite 0) = Inr (start b)"
    if "finite_float (start b)" "is_finite (fp_sub binary32 (end b) (start b))"
  proof -
    from that(1) obtain x where x: "start b = Finite x" "round_to binary32 x = Finite x"
      by (cases "start b") simp_all
    from that(2) have "lerp numeric_float (Finite x) (end b) (Finite 0) = Inr (Finite x)"
      unfolding x(1) by (rule lerp_float_zero [OF x(2)])
    then show ?thesis by (simp add: get_value_for_progress_def float_to_double_def x(1))
  qed
  have 4: "get_value_for_progress numeric_float b (Finite 1) = Inr (end b)"
    if "start b = Finite s" "end b = Finite e" "round_to binary32 s = Finite s"
      "round_to binary32 e = Finite e" "round_to binary32 (e - s) = Finite (e - s)"
    using lerp_float_one [OF that(3,4,5)]
    by (simp add: get_value_for_progress_def float_to_double_def that(1,2))
  have 5: "\<bar>v - e'\<bar> \<le> (\<bar>s'\<bar> + \<bar>e'\<bar>) / 2 ^ 22 + 1 / 2 ^ 148"
    if "start c = Finite s'" "end c = Finite e'"
      "get_value_for_progress numeric_float c (Finite 1) = Inr (Finite v)"
    using that(3)
    by (intro lerp_float_one_tolerance)
       (simp add: get_value_for_progress_def float_to_double_def that(1,2))
  from 1 2 3 4 5 show ?thesis by blast
qed

text \<open>
  The scenario as \<^verbatim>\<open>int\<close> and as \<^verbatim>\<open>float\<close>, where the difference is exact, and the animation
  from 100 to 0.1f, where it is not.
\<close>

theorem interpolation_endpoints_witness:
  "get_value_for_progress numeric_int scenario_int (Finite 0) = Inr 0
   \<and> - (2 ^ 31) \<le> sint (end scenario_int) - sint (start scenario_int)
   \<and> sint (end scenario_int) - sint (start scenario_int) < 2 ^ 31
   \<and> get_value_for_progress numeric_int scenario_int (Finite 1) = Inr 100
   \<and> finite_float (start scenario_float)
   \<and> is_finite (fp_sub binary32 (end scenario_float) (start scenario_float))
   \<and> get_value_for_progress numeric_float scenario_float (Finite 0) = Inr (Finite 0)
   \<and> round_to binary32 0 = Finite 0 \<and> round_to binary32 100 = Finite 100
   \<and> round_to binary32 (100 - 0) = Finite (100 - 0)
   \<and> get_value_for_progress numeric_float scenario_float (Finite 1) = Inr (Finite 100)
   \<and> get_value_for_progress numeric_float shrinking_float (Finite 1) = Inr (Finite (13107 / 131072))
   \<and> \<bar>13107 / 131072 - 13421773 / 134217728 :: real\<bar>
       \<le> (\<bar>100\<bar> + \<bar>13421773 / 134217728\<bar>) / 2 ^ 22 + 1 / 2 ^ 148"
proof -
  have i: "- (2 ^ 31) \<le> sint (end scenario_int) - sint (start scenario_int)
     \<and> sint (end scenario_int) - sint (start scenario_int) < 2 ^ 31"
    by (simp add: scenario_int_def)
  have f: "finite_float (start scenario_float)
     \<and> is_finite (fp_sub binary32 (end scenario_float) (start scenario_float))"
    by (simp add: scenario_float_def fp_sub_def shrinking_endpoints)
  have x: "start scenario_float = Finite 0 \<and> end scenario_float = Finite 100
     \<and> round_to binary32 0 = Finite 0 \<and> round_to binary32 100 = Finite 100
     \<and> round_to binary32 (100 - 0) = Finite (100 - 0)"
    by (simp add: scenario_float_def shrinking_endpoints)
  have g: "start shrinking_float = Finite 100 \<and> end shrinking_float = Finite (13421773 / 134217728)
     \<and> get_value_for_progress numeric_float shrinking_float (Finite 1) = Inr (Finite (13107 / 131072))"
    by (simp add: get_value_for_progress_def shrinking_float_def lerp_shrinking)
  note t = interpolation_endpoints [of scenario_int scenario_float 0 100 shrinking_float
      100 "13421773 / 134217728" "13107 / 131072"]
  from t have 1: "get_value_for_progress numeric_int scenario_int (Finite 0) = Inr 0"
    by (simp add: scenario_int_def)
  from t i have 2: "get_value_for_progress numeric_int scenario_int (Finite 1) = Inr 100"
    by (simp add: scenario_int_def)
  from t f have 3: "get_value_for_progress numeric_float scenario_float (Finite 0) = Inr (Finite 0)"
    by (simp add: scenario_float_def)
  from t x have 4: "get_value_for_progress numeric_float scenario_float (Finite 1) = Inr (Finite 100)"
    by (simp add: scenario_float_def)
  from t g have 5: "\<bar>13107 / 131072 - 13421773 / 134217728 :: real\<bar>
       \<le> (\<bar>100\<bar> + \<bar>13421773 / 134217728\<bar>) / 2 ^ 22 + 1 / 2 ^ 148"
    by blast
  from i f x g 1 2 3 4 5 show ?thesis by blast
qed

text \<open>
  C7 as stated fails for \<^verbatim>\<open>float\<close> where \<open>end - start\<close> overflows. Both endpoints are
  finite numbers, \<open>- 2 ^ 127\<close> and \<open>2 ^ 127\<close>; their \<^verbatim>\<open>float\<close> difference is infinite; the
  interpolation at progress 0 is a NaN and at progress 1 it is infinite.
\<close>

theorem interpolation_endpoints_counterexample:
  "finite_float (start wide_float) \<and> finite_float (end wide_float)
   \<and> get_value_for_progress numeric_float wide_float (Finite 0) = Inr NaN
   \<and> get_value_for_progress numeric_float wide_float (Finite 1) = Inr PInf"
  by (simp add: get_value_for_progress_def wide_float_def fp_eval)

text \<open>
  C8. For \<^verbatim>\<open>int\<close>, a value returned by the interpolation is the \<^verbatim>\<open>double\<close> intermediate
  \<open>start + prog * (end - start)\<close> with its fraction dropped: it is no larger in magnitude
  than the intermediate, less than 1 away from it and of the same sign. For \<^verbatim>\<open>float\<close> the
  intermediate is rounded to the nearest \<^verbatim>\<open>float\<close>, not truncated. In the scenario, 500 ms
  after the start \<open>tick\<close> writes 50 (\<^verbatim>\<open>int\<close>) and 50.0 (\<^verbatim>\<open>float\<close>); 999 ms after the start it
  writes 99 (\<^verbatim>\<open>int\<close>, the intermediate being 99.9...) and the \<^verbatim>\<open>float\<close> nearest 99.9; and
  towards \<open>- 100\<close> it writes \<open>- 99\<close>, not \<open>- 100\<close>.
\<close>

theorem interpolation_truncates:
  "(get_value_for_progress numeric_int a prog = Inr v \<longrightarrow>
      (\<exists>x. fp_add binary64 (int32_to_double (start a))
             (fp_mul binary64 (float_to_double prog) (int32_to_double (end a - start a))) = Finite x
           \<and> sint v = trunc x \<and> \<bar>of_int (sint v)\<bar> \<le> \<bar>x\<bar> \<and> \<bar>x\<bar> < \<bar>of_int (sint v)\<bar> + 1
           \<and> 0 \<le> of_int (sint v) * x))
   \<and> get_value_for_progress numeric_float b prog
       = Inr (double_to_float (fp_add binary64 (float_to_double (start b))
           (fp_mul binary64 (float_to_double prog)
              (float_to_double (fp_sub binary32 (end b) (start b))))))
   \<and> tick numeric_int (prep clock scenario_int) q (clock + 500) = Inr (q\<lparr>value := 50\<rparr>)
   \<and> tick numeric_float (prep clock scenario_float) w (clock + 500) = Inr (w\<lparr>value := Finite 50\<rparr>)
   \<and> tick numeric_int (prep clock scenario_int) q (clock + 999) = Inr (q\<lparr>value := 99\<rparr>)
   \<and> tick numeric_float (prep clock scenario_float) w (clock + 999)
       = Inr (w\<lparr>value := Finite (13094093 / 131072)\<rparr>)
   \<and> tick numeric_int (prep clock (scenario_int\<lparr>end := - 100\<rparr>)) q (clock + 999)
       = Inr (q\<lparr>value := - 99\<rparr>)"
proof -
  have 1: "\<exists>x. fp_add binary64 (int32_to_double (start a))
             (fp_mul binary64 (float_to_double prog) (int32_to_double (end a - start a))) = Finite x
           \<and> sint v = trunc x \<and> \<bar>of_int (sint v)\<bar> \<le> \<bar>x\<bar> \<and> \<bar>x\<bar> < \<bar>of_int (sint v)\<bar> + 1
           \<and> 0 \<le> of_int (sint v) * x"
    if "get_value_for_progress numeric_int a prog = Inr v"
  proof -
    from that obtain x where x: "fp_add binary64 (int32_to_double (start a))
             (fp_mul binary64 (float_to_double prog) (int32_to_double (end a - start a))) = Finite x"
      "sint v = trunc x"
      unfolding get_value_for_progress_def by (rule lerp_int_D)
    from trunc_toward_zero [of x] x show ?thesis by simp
  qed
  have 2: "get_value_for_progress numeric_float b prog
       = Inr (double_to_float (fp_add binary64 (float_to_double (start b))
           (fp_mul binary64 (float_to_double prog)
              (float_to_double (fp_sub binary32 (end b) (start b))))))"
    by (simp add: get_value_for_progress_def lerp_def numeric_float_def)
  have i5: "get_progress (prep clock scenario_int) (clock + 500) = Finite (1 / 2)"
    and f5: "get_progress (prep clock scenario_float) (clock + 500) = Finite (1 / 2)"
    and i9: "get_progress (prep clock scenario_int) (clock + 999) = Finite (16760439 / 16777216)"
    and f9: "get_progress (prep clock scenario_float) (clock + 999) = Finite (16760439 / 16777216)"
    and n9: "get_progress (prep clock (scenario_int\<lparr>end := - 100\<rparr>)) (clock + 999)
              = Finite (16760439 / 16777216)"
    by (simp_all add: get_progress_prep scenario_int_def scenario_float_def
        quotient_500_1000 quotient_999_1000)
  have 3: "tick numeric_int (prep clock scenario_int) q (clock + 500) = Inr (q\<lparr>value := 50\<rparr>)"
    by (simp add: tick_def i5 get_value_for_progress_def) (simp add: scenario_int_def lerp_int_half)
  have 4: "tick numeric_float (prep clock scenario_float) w (clock + 500) = Inr (w\<lparr>value := Finite 50\<rparr>)"
    by (simp add: tick_def f5 get_value_for_progress_def) (simp add: scenario_float_def lerp_float_half)
  have 5: "tick numeric_int (prep clock scenario_int) q (clock + 999) = Inr (q\<lparr>value := 99\<rparr>)"
    by (simp add: tick_def i9 get_value_for_progress_def) (simp add: scenario_int_def lerp_int_999)
  have 6: "tick numeric_float (prep clock scenario_float) w (clock + 999)
       = Inr (w\<lparr>value := Finite (13094093 / 131072)\<rparr>)"
    by (simp add: tick_def f9 get_value_for_progress_def) (simp add: scenario_float_def lerp_float_999)
  have 7: "tick numeric_int (prep clock (scenario_int\<lparr>end := - 100\<rparr>)) q (clock + 999)
       = Inr (q\<lparr>value := - 99\<rparr>)"
    by (simp add: tick_def n9 get_value_for_progress_def) (simp add: scenario_int_def lerp_int_999_down)
  from 1 2 3 4 5 6 7 show ?thesis by blast
qed

text \<open>The scenario at the progress of 999 ms: the intermediate is 99.9..., the value 99.\<close>

theorem interpolation_truncates_witness:
  "get_value_for_progress numeric_int scenario_int (Finite (16760439 / 16777216)) = Inr 99
   \<and> (\<exists>x. fp_add binary64 (int32_to_double (start scenario_int))
             (fp_mul binary64 (float_to_double (Finite (16760439 / 16777216)))
                (int32_to_double (end scenario_int - start scenario_int))) = Finite x
           \<and> sint (99 :: int32) = trunc x \<and> \<bar>of_int (sint (99 :: int32))\<bar> \<le> \<bar>x\<bar>
           \<and> \<bar>x\<bar> < \<bar>of_int (sint (99 :: int32))\<bar> + 1 \<and> 0 \<le> of_int (sint (99 :: int32)) * x)"
proof -
  have h: "get_value_for_progress numeric_int scenario_int (Finite (16760439 / 16777216)) = Inr 99"
    by (simp add: get_value_for_progress_def scenario_int_def lerp_int_999)
  from interpolation_truncates [THEN conjunct1, rule_format, OF h] h show ?thesis by blast
qed

end
